theory Spec2Isabelle
  imports Main "HOL-Library.AList"
begin

section \<open>The schema (command-definition)\<close>

text \<open>
  The schema types of \<^verbatim>\<open>command-definition\<close>. Only the fields the parser reads are kept:
  an option's \<^verbatim>\<open>type\<close> and \<^verbatim>\<open>aliases\<close> (a missing \<^verbatim>\<open>aliases\<close> is the empty list, as in
  \<^verbatim>\<open>opt.aliases || []\<close>), a command's \<^verbatim>\<open>options\<close> and \<^verbatim>\<open>subCommands\<close> (a missing one is the
  empty object). A JavaScript object is an association list in the order in which
  \<^verbatim>\<open>Object.entries\<close> enumerates it; its keys are distinct in a real schema.
  Strings are lists of UTF-16 code units below 256, so \<^verbatim>\<open>length\<close> is the list's length.
\<close>

datatype OptionType =
  TFile | TFiles | TDir | TDirs | TString | TStrings | TNumbers | TNumber | TFlag | TCount

record CommandOption =
  type :: OptionType
  aliases :: "string list"

record NamedOption = CommandOption +
  name :: string

datatype Command =
  Command (options: "(string \<times> CommandOption) list") (subCommands: "(string \<times> Command) list")

section \<open>Parsed arguments and errors\<close>

datatype Arg =
  CommandArg string
  | PositionalArg string
  | OptionArg string string
  | FlagArg string bool

datatype error =
  ConflictingOptionDefinition string OptionType OptionType
  | CursorUnderflow
  | TypeError
  | ReferenceError

section \<open>Strings\<close>

definition startsWith :: "string \<Rightarrow> string \<Rightarrow> bool" where
  "startsWith s p = (take (length p) s = p)"

text \<open>\<^verbatim>\<open>s.split("=")\<close>: never empty, one more part than there are \<^verbatim>\<open>=\<close> signs.\<close>

fun split_eq :: "string \<Rightarrow> string list" where
  "split_eq [] = [[]]"
| "split_eq (c # cs) =
     (if c = CHR ''='' then [] # split_eq cs
      else (c # hd (split_eq cs)) # tl (split_eq cs))"

text \<open>\<^verbatim>\<open>parts.join("=")\<close>.\<close>

fun join_eq :: "string list \<Rightarrow> string" where
  "join_eq [] = []"
| "join_eq [p] = p"
| "join_eq (p # q # ps) = p @ ''='' @ join_eq (q # ps)"

section \<open>The long-option table\<close>

text \<open>
  The long-option table is a \<^verbatim>\<open>StringTree\<close> of the package \<^verbatim>\<open>stringtree-js\<close>, which is
  not part of the repository. Its contents are an association list with distinct keys.
  Its \<^verbatim>\<open>get\<close> is a parameter \<open>g\<close> of every function that reads the table, so that what is
  proved for every \<open>g\<close> does not depend on the package.
\<close>

type_synonym 'v trie = "(string \<times> 'v) list"

type_synonym trie_get = "NamedOption trie \<Rightarrow> string \<Rightarrow> NamedOption option"

text \<open>
  Modelled from the spec: \<^verbatim>\<open>StringTree.set\<close> of \<^verbatim>\<open>stringtree-js\<close> is missing from the
  sources. The spec says that an alias "is registered in the long-option table" and that
  the table needs "insertion" only: the value is stored under the key, in place of the
  value that the key had.
\<close>

definition trie_set :: "'v trie \<Rightarrow> string \<Rightarrow> 'v \<Rightarrow> 'v trie" where
  "trie_set t k v = AList.update k v t"

text \<open>
  Modelled from the spec: \<^verbatim>\<open>StringTree.get\<close> of \<^verbatim>\<open>stringtree-js\<close> is missing from the
  sources. The spec says that the long-option table "supports retrieval by exact key and
  by unambiguous unique prefix": an exact key wins; otherwise the key is resolved when
  exactly one stored key begins with it.
\<close>

definition trie_get :: "'v trie \<Rightarrow> string \<Rightarrow> 'v option" where
  "trie_get t k =
     (case map_of t k of
        Some v \<Rightarrow> Some v
      | None \<Rightarrow>
          (case filter (\<lambda>(k', v). startsWith k' k) t of
             [(k', v)] \<Rightarrow> Some v
           | _ \<Rightarrow> None))"

text \<open>What every reading of \<^verbatim>\<open>get\<close> has in common: a key that was stored is found.\<close>

definition finds_exact :: "trie_get \<Rightarrow> bool" where
  "finds_exact g = (\<forall>t k v. map_of t k = Some v \<longrightarrow> g t k = Some v)"

section \<open>The parser state and the registry\<close>

text \<open>
  \<^verbatim>\<open>ParserState\<close> of the source, together with the cursor \<^verbatim>\<open>idx\<close>, which the source keeps
  in the closure of \<^verbatim>\<open>createParserContext\<close>. \<^verbatim>\<open>knownOptionNames\<close> is a JavaScript \<^verbatim>\<open>Set\<close>:
  a list without duplicates in insertion order.
\<close>

record ParserState =
  knownOptionNames :: "string list"
  longOptions :: "NamedOption trie"
  shortOptions :: "string \<rightharpoonup> NamedOption"
  topCommand :: Command
  parsed :: "Arg list"
  idx :: nat

definition isFlagTypeOption :: "'a CommandOption_scheme \<Rightarrow> bool" where
  "isFlagTypeOption opt = (type opt = TFlag \<or> type opt = TCount)"

definition set_add :: "string \<Rightarrow> string list \<Rightarrow> string list" where
  "set_add x xs = (if x \<in> set xs then xs else xs @ [x])"

text \<open>The list \<^verbatim>\<open>aliases\<close> of \<^verbatim>\<open>addKnownOptionToState\<close> after the \<^verbatim>\<open>no-\<close> variants are pushed.\<close>

definition negatedAliases :: "string list \<Rightarrow> string list" where
  "negatedAliases as = map (\<lambda>a. ''no-'' @ a) (filter (\<lambda>a. length a > 1) as)"

definition expandAliases :: "string \<Rightarrow> CommandOption \<Rightarrow> string list" where
  "expandAliases nm opt =
     (if isFlagTypeOption opt then (nm # aliases opt) @ negatedAliases (nm # aliases opt)
      else nm # aliases opt)"

text \<open>The loop \<^verbatim>\<open>for (const alias of aliases)\<close> of \<^verbatim>\<open>addKnownOptionToState\<close>.\<close>

fun registerAliases ::
  "trie_get \<Rightarrow> NamedOption \<Rightarrow> string list \<Rightarrow> ParserState \<Rightarrow> error + ParserState" where
  "registerAliases g namedOpt [] st = Inr st"
| "registerAliases g namedOpt (alias # rest) st =
     (if length alias = 1
      then registerAliases g namedOpt rest
             (st\<lparr>shortOptions := (shortOptions st)(alias \<mapsto> namedOpt)\<rparr>)
      else
        (case g (longOptions st) alias of
           Some existing \<Rightarrow>
             if type existing \<noteq> type namedOpt
             then Inl (ConflictingOptionDefinition alias (type existing) (type namedOpt))
             else registerAliases g namedOpt rest
                    (st\<lparr>longOptions := trie_set (longOptions st) alias namedOpt\<rparr>)
         | None \<Rightarrow>
             registerAliases g namedOpt rest
               (st\<lparr>longOptions := trie_set (longOptions st) alias namedOpt\<rparr>)))"

definition addKnownOptionToState ::
  "trie_get \<Rightarrow> string \<Rightarrow> CommandOption \<Rightarrow> ParserState \<Rightarrow> error + ParserState" where
  "addKnownOptionToState g nm opt st =
     registerAliases g \<lparr>type = type opt, aliases = aliases opt, name = nm\<rparr>
       (expandAliases nm opt)
       (st\<lparr>knownOptionNames := set_add nm (knownOptionNames st)\<rparr>)"

text \<open>The loop over \<^verbatim>\<open>Object.entries(cmd.options || {})\<close>.\<close>

fun addKnownOptions ::
  "trie_get \<Rightarrow> (string \<times> CommandOption) list \<Rightarrow> ParserState \<Rightarrow> error + ParserState" where
  "addKnownOptions g [] st = Inr st"
| "addKnownOptions g ((nm, opt) # rest) st =
     (case addKnownOptionToState g nm opt st of
        Inl e \<Rightarrow> Inl e
      | Inr st' \<Rightarrow> addKnownOptions g rest st')"

text \<open>
  \<^verbatim>\<open>addKnownCommandToState\<close>; \<open>addKnownSubCommands\<close> is its loop over
  \<^verbatim>\<open>Object.values(cmd.subCommands || {})\<close>.
\<close>

fun addKnownCommandToState ::
    "trie_get \<Rightarrow> Command \<Rightarrow> ParserState \<Rightarrow> error + ParserState"
  and addKnownSubCommands ::
    "trie_get \<Rightarrow> (string \<times> Command) list \<Rightarrow> ParserState \<Rightarrow> error + ParserState" where
  "addKnownCommandToState g (Command opts subs) st =
     (case addKnownOptions g opts st of
        Inl e \<Rightarrow> Inl e
      | Inr st' \<Rightarrow> addKnownSubCommands g subs st')"
| "addKnownSubCommands g [] st = Inr st"
| "addKnownSubCommands g ((nm, sub) # rest) st =
     (case addKnownCommandToState g sub st of
        Inl e \<Rightarrow> Inl e
      | Inr st' \<Rightarrow> addKnownSubCommands g rest st')"

text \<open>The state that \<^verbatim>\<open>createParserContext\<close> builds before any token is read.\<close>

definition createParserContext :: "trie_get \<Rightarrow> Command \<Rightarrow> error + ParserState" where
  "createParserContext g cmd =
     addKnownCommandToState g cmd
       \<lparr>knownOptionNames = [], longOptions = [], shortOptions = Map.empty,
        topCommand = cmd, parsed = [], idx = 0\<rparr>"

section \<open>The cursor\<close>

definition hasNext :: "string list \<Rightarrow> ParserState \<Rightarrow> bool" where
  "hasNext args st = (idx st < length args)"

text \<open>\<^verbatim>\<open>getNext\<close> is only called under \<^verbatim>\<open>hasNext\<close>, so \<^verbatim>\<open>args[idx]\<close> is in range.\<close>

definition getNext :: "string list \<Rightarrow> ParserState \<Rightarrow> string \<times> ParserState" where
  "getNext args st = (args ! idx st, st\<lparr>idx := idx st + 1\<rparr>)"

definition putBack :: "nat \<Rightarrow> ParserState \<Rightarrow> error + ParserState" where
  "putBack argIdx st =
     (if idx st > argIdx then Inr (st\<lparr>idx := idx st - 1\<rparr>) else Inl CursorUnderflow)"

section \<open>Pushing events\<close>

definition pushParsed :: "Arg \<Rightarrow> ParserState \<Rightarrow> ParserState" where
  "pushParsed arg st = st\<lparr>parsed := parsed st @ [arg]\<rparr>"

definition hasSubCommand :: "ParserState \<Rightarrow> string \<Rightarrow> bool" where
  "hasSubCommand st nm = (map_of (subCommands (topCommand st)) nm \<noteq> None)"

text \<open>
  \<^verbatim>\<open>command\<close> is only called under \<^verbatim>\<open>hasSubCommand\<close>; without it the source would set
  \<^verbatim>\<open>topCommand\<close> to \<^verbatim>\<open>undefined\<close>, a case that the parser never reaches.
\<close>

definition command :: "string \<Rightarrow> ParserState \<Rightarrow> ParserState" where
  "command nm st =
     (case map_of (subCommands (topCommand st)) nm of
        Some sub \<Rightarrow> (pushParsed (CommandArg nm) st)\<lparr>topCommand := sub\<rparr>
      | None \<Rightarrow> pushParsed (CommandArg nm) st)"

definition positional :: "string \<Rightarrow> ParserState \<Rightarrow> ParserState" where
  "positional v st = pushParsed (PositionalArg v) st"

definition option :: "string \<Rightarrow> string \<Rightarrow> ParserState \<Rightarrow> ParserState" where
  "option nm v st = pushParsed (OptionArg nm v) st"

text \<open>\<^verbatim>\<open>flagArg\<close>: \<^verbatim>\<open>name.replace(/^no-/, "")\<close> and \<^verbatim>\<open>!name.startsWith("no-")\<close>.\<close>

definition flagArg :: "string \<Rightarrow> Arg" where
  "flagArg nm =
     FlagArg (if startsWith nm ''no-'' then drop 3 nm else nm) (\<not> startsWith nm ''no-'')"

definition flag :: "string \<Rightarrow> ParserState \<Rightarrow> ParserState" where
  "flag nm st = pushParsed (flagArg nm) st"

section \<open>The classifier and the resolver\<close>

text \<open>
  The functions of the parser with the parser context (the draft with \<^verbatim>\<open>NamedOption\<close>,
  \<^verbatim>\<open>parseResults\<close> and the completion). The class \<^verbatim>\<open>CommandLineParser\<close> of \<^verbatim>\<open>parser.ts\<close> and
  the third draft classify and resolve in the same way, statement by statement; they
  differ in where the state lives and in that their table entries have no \<^verbatim>\<open>name\<close>.
\<close>

function parseBreakOutArg :: "string list \<Rightarrow> ParserState \<Rightarrow> ParserState" where
  "parseBreakOutArg args st =
     (if hasNext args st
      then parseBreakOutArg args (positional (fst (getNext args st)) (snd (getNext args st)))
      else st)"
  by pat_completeness auto
termination
  by (relation "measure (\<lambda>(args, st). length args - idx st)")
     (auto simp: hasNext_def getNext_def positional_def pushParsed_def)

definition parseSubCommand :: "string \<Rightarrow> ParserState \<Rightarrow> ParserState" where
  "parseSubCommand arg st = command arg st"

definition parsePositionalArg :: "string \<Rightarrow> ParserState \<Rightarrow> ParserState" where
  "parsePositionalArg arg st = positional arg st"

definition parseOptionWithPossibleParameter ::
  "string \<Rightarrow> NamedOption option \<Rightarrow> string list \<Rightarrow> nat \<Rightarrow> ParserState \<Rightarrow> error + ParserState"
  where
  "parseOptionWithPossibleParameter nm opt args argIdx st =
     (if hasNext args st then
        (let maybeParam = fst (getNext args st); st1 = snd (getNext args st) in
         case opt of
           Some known \<Rightarrow>
             if isFlagTypeOption known
             then (case putBack argIdx st1 of Inl e \<Rightarrow> Inl e | Inr st2 \<Rightarrow> Inr (flag nm st2))
             else Inr (option nm maybeParam st1)
         | None \<Rightarrow>
             if startsWith maybeParam ''-''
             then (case putBack argIdx st1 of Inl e \<Rightarrow> Inl e | Inr st2 \<Rightarrow> Inr (flag nm st2))
             else Inr (option nm maybeParam st1))
      else Inr (flag nm st))"

text \<open>
  \<^verbatim>\<open>allNames.substr(allNames.length - 1)\<close> is the last character, or the empty string when
  \<^verbatim>\<open>allNames\<close> is empty; \<^verbatim>\<open>allNames.substr(0, allNames.length - 1)\<close> is the rest.
\<close>

definition parseShortOptionArg ::
  "string \<Rightarrow> string list \<Rightarrow> nat \<Rightarrow> ParserState \<Rightarrow> error + ParserState" where
  "parseShortOptionArg arg args argIdx st =
     (let bareArgs = drop 1 arg;
          allNames = hd (split_eq bareArgs);
          eqOther = tl (split_eq bareArgs);
          lastName = drop (length allNames - 1) allNames;
          firstNames = take (length allNames - 1) allNames;
          st1 = fold (\<lambda>shortOpt. flag [shortOpt]) firstNames st
      in if eqOther \<noteq> []
         then Inr (option lastName (join_eq eqOther) st1)
         else parseOptionWithPossibleParameter lastName (shortOptions st1 lastName)
                args argIdx st1)"

definition parseLongOptionArg ::
  "trie_get \<Rightarrow> string \<Rightarrow> string list \<Rightarrow> nat \<Rightarrow> ParserState \<Rightarrow> error + ParserState" where
  "parseLongOptionArg g arg args argIdx st =
     (let bareArg = drop 2 arg;
          nm = hd (split_eq bareArg);
          eqOther = tl (split_eq bareArg)
      in if eqOther \<noteq> []
         then Inr (option nm (join_eq eqOther) st)
         else parseOptionWithPossibleParameter nm (g (longOptions st) nm) args argIdx st)"

definition parseArg ::
  "trie_get \<Rightarrow> string \<Rightarrow> string list \<Rightarrow> nat \<Rightarrow> ParserState \<Rightarrow> error + ParserState" where
  "parseArg g arg args argIdx st =
     (if arg = ''--'' then Inr (parseBreakOutArg args st)
      else if arg = ''-'' then Inr (parsePositionalArg arg st)
      else if startsWith arg ''--'' then parseLongOptionArg g arg args argIdx st
      else if startsWith arg ''-'' then parseShortOptionArg arg args argIdx st
      else if hasSubCommand st arg then Inr (parseSubCommand arg st)
      else Inr (parsePositionalArg arg st))"

text \<open>
  One iteration of the loop of \<^verbatim>\<open>parseResults\<close>: \<^verbatim>\<open>context.next()\<close> remembers the index
  \<^verbatim>\<open>argIdx\<close> of the token, consumes it, and \<^verbatim>\<open>parseArg\<close> classifies it.
\<close>

definition parseStep :: "trie_get \<Rightarrow> string list \<Rightarrow> ParserState \<Rightarrow> error + ParserState" where
  "parseStep g args st =
     parseArg g (fst (getNext args st)) args (idx st) (snd (getNext args st))"

text \<open>
  The loop \<^verbatim>\<open>while (context.hasNext())\<close>. Nothing in its shape makes it end, so it is a
  partial function: \<open>None\<close> is a run that never returns.
\<close>

partial_function (option) parseLoop ::
  "trie_get \<Rightarrow> string list \<Rightarrow> ParserState \<Rightarrow> (error + ParserState) option" where
  "parseLoop g args st =
     (if hasNext args st
      then (case parseStep g args st of
              Inl e \<Rightarrow> Some (Inl e)
            | Inr st' \<Rightarrow> parseLoop g args st')
      else Some (Inr st))"

declare parseLoop.simps [code]

definition parseResults ::
  "trie_get \<Rightarrow> Command \<Rightarrow> string list \<Rightarrow> (error + ParserState) option" where
  "parseResults g cmd args =
     (case createParserContext g cmd of
        Inl e \<Rightarrow> Some (Inl e)
      | Inr st \<Rightarrow> parseLoop g args st)"

definition parse :: "trie_get \<Rightarrow> Command \<Rightarrow> string list \<Rightarrow> (error + Arg list) option" where
  "parse g cmd args = map_option (map_sum id parsed) (parseResults g cmd args)"

text \<open>
  The state after \<open>n\<close> iterations of the loop, when the loop runs that long: the states
  that a parse reaches.
\<close>

fun parseSteps :: "trie_get \<Rightarrow> string list \<Rightarrow> nat \<Rightarrow> ParserState \<Rightarrow> ParserState option" where
  "parseSteps g args 0 st = Some st"
| "parseSteps g args (Suc n) st =
     (if hasNext args st
      then (case parseStep g args st of
              Inl e \<Rightarrow> None
            | Inr st' \<Rightarrow> parseSteps g args n st')
      else None)"

section \<open>Completion\<close>

record CompletionSuggestions =
  words :: "string list"
  files :: bool

text \<open>\<^verbatim>\<open>context.getOption\<close>, and the same choice written out in \<^verbatim>\<open>getOptionsNotUsed\<close>.\<close>

definition getOption :: "trie_get \<Rightarrow> ParserState \<Rightarrow> string \<Rightarrow> NamedOption option" where
  "getOption g st nm = (if length nm = 1 then shortOptions st nm else g (longOptions st) nm)"

definition isSingularOpt :: "'a CommandOption_scheme \<Rightarrow> bool" where
  "isSingularOpt cmd =
     (case type cmd of
        TDirs \<Rightarrow> False
      | TFiles \<Rightarrow> False
      | TNumbers \<Rightarrow> False
      | TStrings \<Rightarrow> False
      | _ \<Rightarrow> True)"

text \<open>
  \<^verbatim>\<open>getOptionsNotUsed\<close>. The names of the option events are looked up; a name that is not
  in the tables gives \<^verbatim>\<open>undefined\<close>, and \<^verbatim>\<open>isSingularOpt(undefined)\<close> reads \<^verbatim>\<open>.type\<close> of it,
  which throws a \<^verbatim>\<open>TypeError\<close>.
\<close>

definition getOptionsNotUsed :: "trie_get \<Rightarrow> ParserState \<Rightarrow> error + string list" where
  "getOptionsNotUsed g st =
     (let optionsPassed = map (getOption g st) [nm. OptionArg nm v \<leftarrow> parsed st]
      in if None \<in> set optionsPassed then Inl TypeError
         else
           (let optionNamesConsumed = map name (filter isSingularOpt (map the optionsPassed))
            in Inr (filter (\<lambda>optName. optName \<notin> set optionNamesConsumed)
                      (knownOptionNames st))))"

text \<open>
  \<^verbatim>\<open>getExpectedParameterType\<close>: \<^verbatim>\<open>isOptionArg(undefined)\<close> (no event was parsed) and
  \<^verbatim>\<open>isFlagTypeOption(undefined)\<close> (the last option is not in the tables) throw.
\<close>

definition getExpectedParameterType ::
  "trie_get \<Rightarrow> string list \<Rightarrow> ParserState \<Rightarrow> error + OptionType option" where
  "getExpectedParameterType g args st =
     (if args = [] \<or> last args \<noteq> [] then Inr None
      else if parsed st = [] then Inl TypeError
      else
        (case last (parsed st) of
           OptionArg nm v \<Rightarrow>
             (case getOption g st nm of
                None \<Rightarrow> Inl TypeError
              | Some tailOpt \<Rightarrow>
                  if isFlagTypeOption tailOpt then Inr None else Inr (Some (type tailOpt)))
         | _ \<Rightarrow> Inr None))"

text \<open>
  The body of \<^verbatim>\<open>getCompletionSuggestions\<close> up to the property \<^verbatim>\<open>words\<close> of the object in
  its return statement: the tokens after the program name are parsed, the options not
  used and the sub-command names are collected, \<^verbatim>\<open>getExpectedParameterType\<close> is called, and
  \<^verbatim>\<open>[...optionsNotUsed, ...commands]\<close> is built.
\<close>

definition completionWords ::
  "trie_get \<Rightarrow> Command \<Rightarrow> string list \<Rightarrow> (error + string list) option" where
  "completionWords g cmd args =
     (case parseResults g cmd (drop 1 args) of
        None \<Rightarrow> None
      | Some (Inl e) \<Rightarrow> Some (Inl e)
      | Some (Inr st) \<Rightarrow>
          (case getOptionsNotUsed g st of
             Inl e \<Rightarrow> Some (Inl e)
           | Inr optionsNotUsed \<Rightarrow>
               (let commands = map fst (subCommands (topCommand st)) in
                case getExpectedParameterType g args st of
                  Inl e \<Rightarrow> Some (Inl e)
                | Inr expectedParamType \<Rightarrow> Some (Inr (optionsNotUsed @ commands)))))"

text \<open>
  \<^verbatim>\<open>getCompletionSuggestions\<close>. After \<^verbatim>\<open>words\<close> the return statement reads
  \<^verbatim>\<open>files: lookingForFiles\<close>. No declaration of \<^verbatim>\<open>lookingForFiles\<close> exists (the only one is
  commented out), so reading it throws a \<^verbatim>\<open>ReferenceError\<close>: the function never returns
  its object.
\<close>

definition getCompletionSuggestions ::
  "trie_get \<Rightarrow> Command \<Rightarrow> string list \<Rightarrow> (error + CompletionSuggestions) option" where
  "getCompletionSuggestions g cmd args =
     (case completionWords g cmd args of
        None \<Rightarrow> None
      | Some (Inl e) \<Rightarrow> Some (Inl e)
      | Some (Inr ws) \<Rightarrow> Some (Inl ReferenceError))"

section \<open>Auxiliary notions for the proofs\<close>

text \<open>The lookup tables of two states agree.\<close>

definition same_tables :: "ParserState \<Rightarrow> ParserState \<Rightarrow> bool" where
  "same_tables st st' =
     (longOptions st' = longOptions st \<and> shortOptions st' = shortOptions st \<and>
      knownOptionNames st' = knownOptionNames st)"

text \<open>The cursor, the output and the active command of two states agree.\<close>

definition frame :: "ParserState \<Rightarrow> ParserState \<Rightarrow> bool" where
  "frame st st' = (idx st' = idx st \<and> parsed st' = parsed st \<and> topCommand st' = topCommand st)"

text \<open>
  The option definitions of a command tree in the order in which
  \<^verbatim>\<open>addKnownCommandToState\<close> registers them: a command's own options, then those of its
  sub-commands, depth first.
\<close>

fun all_options :: "Command \<Rightarrow> (string \<times> CommandOption) list"
  and all_sub_options :: "(string \<times> Command) list \<Rightarrow> (string \<times> CommandOption) list" where
  "all_options (Command opts subs) = opts @ all_sub_options subs"
| "all_sub_options [] = []"
| "all_sub_options ((nm, sub) # rest) = all_options sub @ all_sub_options rest"

text \<open>The long-option table holds the key \<open>k\<close> with a definition of kind \<open>ty\<close>.\<close>

definition long_has :: "ParserState \<Rightarrow> string \<Rightarrow> OptionType \<Rightarrow> bool" where
  "long_has st k ty = (\<exists>opt. map_of (longOptions st) k = Some opt \<and> type opt = ty)"

text \<open>
  The words of the spec on completion: an option name \<open>n\<close> is consumed by a parsed
  event when the event is an option event whose name resolves to a single-valued
  definition with the primary name \<open>n\<close>.
\<close>

fun consumedBy :: "trie_get \<Rightarrow> ParserState \<Rightarrow> string \<Rightarrow> Arg \<Rightarrow> bool" where
  "consumedBy g st n (OptionArg nm v) =
     (case getOption g st nm of
        Some opt \<Rightarrow> isSingularOpt opt \<and> name opt = n
      | None \<Rightarrow> False)"
| "consumedBy g st n (CommandArg nm) = False"
| "consumedBy g st n (PositionalArg v) = False"
| "consumedBy g st n (FlagArg nm b) = False"

text \<open>The alias \<open>a\<close> is stored for the definition \<open>namedOpt\<close>, in the table for its length.\<close>

definition registered :: "ParserState \<Rightarrow> NamedOption \<Rightarrow> string \<Rightarrow> bool" where
  "registered st namedOpt a =
     (if length a = 1 then shortOptions st a = Some namedOpt
      else map_of (longOptions st) a = Some namedOpt)"

section \<open>The cursor and the loop\<close>

declare parseBreakOutArg.simps [simp del]

lemma parseBreakOutArg_eq:
  "parseBreakOutArg args st =
     (if hasNext args st
      then st\<lparr>parsed := parsed st @ map PositionalArg (drop (idx st) args), idx := length args\<rparr>
      else st)"
proof (induction args st rule: parseBreakOutArg.induct)
  case (1 args st)
  show ?case
  proof (cases "hasNext args st")
    case True
    then have lt: "idx st < length args" by (simp add: hasNext_def)
    let ?st1 = "positional (fst (getNext args st)) (snd (getNext args st))"
    have unf: "parseBreakOutArg args st = parseBreakOutArg args ?st1"
      using True by (subst parseBreakOutArg.simps) simp
    have st1: "?st1 = st\<lparr>parsed := parsed st @ [PositionalArg (args ! idx st)], idx := Suc (idx st)\<rparr>"
      by (simp add: getNext_def positional_def pushParsed_def)
    have dr: "drop (idx st) args = args ! idx st # drop (Suc (idx st)) args"
      using lt by (simp add: Cons_nth_drop_Suc)
    show ?thesis
    proof (cases "hasNext args ?st1")
      case True
      with "1.IH" [OF \<open>hasNext args st\<close>] unf st1 dr \<open>hasNext args st\<close> show ?thesis by simp
    next
      case False
      then have "Suc (idx st) = length args" using lt st1 by (simp add: hasNext_def)
      with "1.IH" [OF \<open>hasNext args st\<close>] unf st1 dr \<open>hasNext args st\<close> False show ?thesis by simp
    qed
  next
    case False
    then show ?thesis by (subst parseBreakOutArg.simps) simp
  qed
qed

lemma parseOptionWithPossibleParameter_result:
  assumes "argIdx < idx st"
  shows "\<exists>st' e. parseOptionWithPossibleParameter nm opt args argIdx st = Inr st'
           \<and> parsed st' = parsed st @ [e]
           \<and> (e = flagArg nm \<or> (\<exists>v. e = OptionArg nm v))
           \<and> idx st \<le> idx st' \<and> (hasNext args st \<longrightarrow> idx st' \<le> length args)
           \<and> (\<not> hasNext args st \<longrightarrow> idx st' = idx st)
           \<and> topCommand st' = topCommand st \<and> same_tables st st'"
  using assms
  by (auto simp: parseOptionWithPossibleParameter_def putBack_def getNext_def flag_def
        option_def pushParsed_def hasNext_def same_tables_def Let_def split: option.splits)

lemma fold_flag:
  "fold (\<lambda>shortOpt. flag [shortOpt]) cs st =
     st\<lparr>parsed := parsed st @ map (\<lambda>c. FlagArg [c] True) cs\<rparr>"
  by (induction cs arbitrary: st) (simp_all add: flag_def flagArg_def pushParsed_def startsWith_def)


lemma parseLongOptionArg_result:
  assumes "argIdx < idx st" "idx st \<le> length args"
  shows "\<exists>st'. parseLongOptionArg g arg args argIdx st = Inr st'
           \<and> idx st \<le> idx st' \<and> idx st' \<le> length args
           \<and> topCommand st' = topCommand st \<and> same_tables st st'"
proof (cases "tl (split_eq (drop 2 arg)) \<noteq> []")
  case True
  then show ?thesis using assms
    by (simp add: parseLongOptionArg_def Let_def option_def pushParsed_def same_tables_def)
next
  case False
  from parseOptionWithPossibleParameter_result [OF assms(1),
      of "hd (split_eq (drop 2 arg))" "g (longOptions st) (hd (split_eq (drop 2 arg)))" args]
  obtain st' where
    "parseOptionWithPossibleParameter (hd (split_eq (drop 2 arg)))
       (g (longOptions st) (hd (split_eq (drop 2 arg)))) args argIdx st = Inr st'"
    "idx st \<le> idx st'" "hasNext args st \<longrightarrow> idx st' \<le> length args"
    "\<not> hasNext args st \<longrightarrow> idx st' = idx st"
    "topCommand st' = topCommand st" "same_tables st st'"
    by blast
  then show ?thesis using False assms(2)
    by (cases "hasNext args st") (auto simp: parseLongOptionArg_def Let_def)
qed

lemma parseShortOptionArg_result:
  assumes "argIdx < idx st" "idx st \<le> length args"
  shows "\<exists>st'. parseShortOptionArg arg args argIdx st = Inr st'
           \<and> idx st \<le> idx st' \<and> idx st' \<le> length args
           \<and> topCommand st' = topCommand st \<and> same_tables st st'"
proof -
  let ?names = "hd (split_eq (drop 1 arg))"
  let ?st1 = "fold (\<lambda>shortOpt. flag [shortOpt]) (take (length ?names - 1) ?names) st"
  have st1: "idx ?st1 = idx st" "topCommand ?st1 = topCommand st" "same_tables st ?st1"
    "hasNext args ?st1 = hasNext args st"
    by (simp_all add: fold_flag same_tables_def hasNext_def)
  show ?thesis
  proof (cases "tl (split_eq (drop 1 arg)) \<noteq> []")
    case True
    then show ?thesis using assms st1
      by (simp add: parseShortOptionArg_def Let_def option_def pushParsed_def same_tables_def)
  next
    case False
    have "argIdx < idx ?st1" using assms(1) st1 by simp
    from parseOptionWithPossibleParameter_result [OF this,
        of "drop (length ?names - 1) ?names" "shortOptions ?st1 (drop (length ?names - 1) ?names)" args]
    obtain st' where
      "parseOptionWithPossibleParameter (drop (length ?names - 1) ?names)
         (shortOptions ?st1 (drop (length ?names - 1) ?names)) args argIdx ?st1 = Inr st'"
      "idx ?st1 \<le> idx st'" "hasNext args ?st1 \<longrightarrow> idx st' \<le> length args"
      "\<not> hasNext args ?st1 \<longrightarrow> idx st' = idx ?st1"
      "topCommand st' = topCommand ?st1" "same_tables ?st1 st'"
      by blast
    then show ?thesis using False assms(2) st1
      by (cases "hasNext args st") (auto simp: parseShortOptionArg_def Let_def same_tables_def)
  qed
qed

lemma parseStep_advances:
  assumes "hasNext args st"
  shows "\<exists>st'. parseStep g args st = Inr st' \<and> idx st < idx st' \<and> idx st' \<le> length args
           \<and> same_tables st st'"
proof -
  let ?arg = "args ! idx st"
  let ?st1 = "st\<lparr>idx := idx st + 1\<rparr>"
  have lt: "idx st < length args" using assms by (simp add: hasNext_def)
  have step: "parseStep g args st = parseArg g ?arg args (idx st) ?st1"
    by (simp add: parseStep_def getNext_def)
  have pre: "idx st < idx ?st1" "idx ?st1 \<le> length args" using lt by simp_all
  have tabs: "same_tables st ?st1" by (simp add: same_tables_def)
  consider (brk) "?arg = ''--''"
    | (dash) "?arg \<noteq> ''--''" "?arg = ''-''"
    | (long) "?arg \<noteq> ''--''" "?arg \<noteq> ''-''" "startsWith ?arg ''--''"
    | (short) "?arg \<noteq> ''--''" "?arg \<noteq> ''-''" "\<not> startsWith ?arg ''--''" "startsWith ?arg ''-''"
    | (other) "?arg \<noteq> ''--''" "?arg \<noteq> ''-''" "\<not> startsWith ?arg ''--''" "\<not> startsWith ?arg ''-''"
    by blast
  then show ?thesis
  proof cases
    case brk
    then show ?thesis using lt unfolding step
      by (simp add: parseArg_def parseBreakOutArg_eq same_tables_def hasNext_def)
  next
    case dash
    then show ?thesis using lt unfolding step
      by (simp add: parseArg_def parsePositionalArg_def positional_def pushParsed_def
            same_tables_def)
  next
    case long
    from parseLongOptionArg_result [OF pre, of g ?arg]
    obtain st' where "parseLongOptionArg g ?arg args (idx st) ?st1 = Inr st'"
      "idx ?st1 \<le> idx st'" "idx st' \<le> length args" "same_tables ?st1 st'"
      by blast
    then show ?thesis using long unfolding step
      by (simp add: parseArg_def same_tables_def)
  next
    case short
    from parseShortOptionArg_result [OF pre, of ?arg]
    obtain st' where "parseShortOptionArg ?arg args (idx st) ?st1 = Inr st'"
      "idx ?st1 \<le> idx st'" "idx st' \<le> length args" "same_tables ?st1 st'"
      by blast
    then show ?thesis using short unfolding step
      by (simp add: parseArg_def same_tables_def)
  next
    case other
    then show ?thesis using lt unfolding step
      by (simp add: parseArg_def parsePositionalArg_def positional_def pushParsed_def
            parseSubCommand_def command_def same_tables_def split: option.splits)
  qed
qed

lemma parseLoop_returns:
  "\<exists>st'. parseLoop g args st = Some (Inr st') \<and> \<not> hasNext args st' \<and> same_tables st st'
         \<and> (idx st \<le> length args \<longrightarrow> idx st' = length args)"
proof (induction "length args - idx st" arbitrary: st rule: less_induct)
  case less
  show ?case
  proof (cases "hasNext args st")
    case True
    from parseStep_advances [OF True, of g]
    obtain st1 where s1: "parseStep g args st = Inr st1" "idx st < idx st1"
      "idx st1 \<le> length args" "same_tables st st1"
      by blast
    have "length args - idx st1 < length args - idx st"
      using True s1 by (simp add: hasNext_def)
    from less [OF this]
    obtain st' where "parseLoop g args st1 = Some (Inr st')" "\<not> hasNext args st'"
      "same_tables st1 st'" "idx st1 \<le> length args \<longrightarrow> idx st' = length args"
      by blast
    then show ?thesis using True s1
      by (subst parseLoop.simps) (simp add: same_tables_def)
  next
    case False
    then show ?thesis by (subst parseLoop.simps) (simp add: same_tables_def hasNext_def)
  qed
qed

section \<open>The registry leaves the cursor and the output alone\<close>

lemma frame_refl [simp]: "frame st st"
  by (simp add: frame_def)

lemma frame_trans: "frame a b \<Longrightarrow> frame b c \<Longrightarrow> frame a c"
  by (simp add: frame_def)

lemma registerAliases_frame:
  "registerAliases g namedOpt as st = Inr st' \<Longrightarrow> frame st st'"
proof (induction as arbitrary: st)
  case Nil
  then show ?case by simp
next
  case (Cons a as)
  show ?case
  proof (cases "length a = 1")
    case True
    with Cons.prems have "registerAliases g namedOpt as
        (st\<lparr>shortOptions := (shortOptions st)(a \<mapsto> namedOpt)\<rparr>) = Inr st'"
      by simp
    from Cons.IH [OF this] show ?thesis by (simp add: frame_def)
  next
    case False
    with Cons.prems have "registerAliases g namedOpt as
        (st\<lparr>longOptions := trie_set (longOptions st) a namedOpt\<rparr>) = Inr st'"
      by (simp split: option.splits if_splits)
    from Cons.IH [OF this] show ?thesis by (simp add: frame_def)
  qed
qed

lemma addKnownOptionToState_frame:
  "addKnownOptionToState g nm opt st = Inr st' \<Longrightarrow> frame st st'"
  unfolding addKnownOptionToState_def
  by (drule registerAliases_frame) (simp add: frame_def)

lemma addKnownOptions_frame:
  "addKnownOptions g opts st = Inr st' \<Longrightarrow> frame st st'"
proof (induction opts arbitrary: st)
  case Nil
  then show ?case by simp
next
  case (Cons p opts)
  obtain nm opt where p: "p = (nm, opt)" by (cases p)
  from Cons.prems p obtain st1 where
    "addKnownOptionToState g nm opt st = Inr st1" "addKnownOptions g opts st1 = Inr st'"
    by (simp split: sum.splits)
  then show ?case
    using addKnownOptionToState_frame Cons.IH frame_trans by blast
qed

lemma addKnownCommandToState_frame:
  "addKnownCommandToState g cmd st = Inr st' \<Longrightarrow> frame st st'"
  and addKnownSubCommands_frame:
  "addKnownSubCommands g subs st = Inr st' \<Longrightarrow> frame st st'"
proof (induction g cmd st and g subs st arbitrary: st' and st'
        rule: addKnownCommandToState_addKnownSubCommands.induct)
  case (1 g opts subs st)
  from "1.prems" obtain st1 where
    s: "addKnownOptions g opts st = Inr st1" "addKnownSubCommands g subs st1 = Inr st'"
    by (simp split: sum.splits)
  from "1.IH" [OF s] addKnownOptions_frame [OF s(1)] show ?case
    by (rule frame_trans [rotated])
next
  case (2 g st)
  then show ?case by simp
next
  case (3 g nm sub rest st)
  from "3.prems" obtain st1 where
    s: "addKnownCommandToState g sub st = Inr st1" "addKnownSubCommands g rest st1 = Inr st'"
    by (simp split: sum.splits)
  from "3.IH"(1) [OF s(1)] "3.IH"(2) [OF s] show ?case
    by (rule frame_trans)
qed

lemma createParserContext_initial:
  "createParserContext g cmd = Inr st \<Longrightarrow> idx st = 0 \<and> parsed st = [] \<and> topCommand st = cmd"
  unfolding createParserContext_def
  by (drule addKnownCommandToState_frame) (simp add: frame_def)

section \<open>Termination (C10)\<close>

text \<open>
  C10. For every schema and every token list, parsing runs to completion: the call
  returns (with the registry's error, or with a final state). When the registry is
  built, the loop never fails and ends with the cursor at the end of the input. Each
  iteration of the loop succeeds and leaves the cursor strictly beyond its place before
  the iteration, and never beyond the end of the input.
\<close>

theorem parse_runs_to_completion:
  "(\<exists>r. parseResults g cmd args = Some r)
   \<and> (\<forall>st0. createParserContext g cmd = Inr st0 \<longrightarrow>
         (\<exists>st'. parseResults g cmd args = Some (Inr st') \<and> idx st' = length args))
   \<and> (\<forall>st. hasNext args st \<longrightarrow>
         (\<exists>st'. parseStep g args st = Inr st' \<and> idx st < idx st' \<and> idx st' \<le> length args))"
proof (intro conjI allI impI)
  show "\<exists>r. parseResults g cmd args = Some r"
  proof (cases "createParserContext g cmd")
    case (Inl e)
    then show ?thesis by (simp add: parseResults_def)
  next
    case (Inr st0)
    with parseLoop_returns [of g args st0] show ?thesis
      by (auto simp: parseResults_def)
  qed
next
  fix st0
  assume b: "createParserContext g cmd = Inr st0"
  then have "idx st0 = 0" by (simp add: createParserContext_initial)
  with parseLoop_returns [of g args st0] b
  show "\<exists>st'. parseResults g cmd args = Some (Inr st') \<and> idx st' = length args"
    by (auto simp: parseResults_def)
next
  fix st
  assume "hasNext args st"
  from parseStep_advances [OF this, of g]
  show "\<exists>st'. parseStep g args st = Inr st' \<and> idx st < idx st' \<and> idx st' \<le> length args"
    by blast
qed

theorem parse_runs_to_completion_witness:
  "(\<exists>st0. createParserContext trie_get
            (Command [(''c'', \<lparr>type = TString, aliases = []\<rparr>)] []) = Inr st0)
   \<and> (\<exists>st'. parseResults trie_get (Command [(''c'', \<lparr>type = TString, aliases = []\<rparr>)] [])
              [''-c'', ''--'', ''-x''] = Some (Inr st')
            \<and> idx st' = length [''-c'', ''--'', ''-x''])
   \<and> hasNext [''-c'', ''--'', ''-x'']
        \<lparr>knownOptionNames = [], longOptions = [], shortOptions = Map.empty,
         topCommand = Command [] [], parsed = [], idx = 1\<rparr>
   \<and> (\<exists>st'. parseStep trie_get [''-c'', ''--'', ''-x'']
              \<lparr>knownOptionNames = [], longOptions = [], shortOptions = Map.empty,
               topCommand = Command [] [], parsed = [], idx = 1\<rparr> = Inr st'
            \<and> 1 < idx st' \<and> idx st' \<le> length [''-c'', ''--'', ''-x''])"
proof -
  let ?cmd = "Command [(''c'', \<lparr>type = TString, aliases = []\<rparr>)] []"
  let ?args = "[''-c'', ''--'', ''-x'']"
  let ?st = "\<lparr>knownOptionNames = [], longOptions = [], shortOptions = Map.empty,
              topCommand = Command [] [], parsed = [], idx = 1\<rparr>"
  have b: "\<exists>st0. createParserContext trie_get ?cmd = Inr st0"
    by (simp add: createParserContext_def addKnownOptionToState_def expandAliases_def
          isFlagTypeOption_def)
  have h: "hasNext ?args ?st" by (simp add: hasNext_def)
  from parse_runs_to_completion [of trie_get ?cmd ?args] b h show ?thesis
    by (metis ParserState.select_convs(6))
qed

section \<open>States that a parse reaches\<close>

lemma parseSteps_parseLoop:
  "parseSteps g args n st = Some st' \<Longrightarrow> parseLoop g args st = parseLoop g args st'"
proof (induction n arbitrary: st)
  case 0
  then show ?case by simp
next
  case (Suc n)
  from Suc.prems obtain st1 where
    s: "hasNext args st" "parseStep g args st = Inr st1" "parseSteps g args n st1 = Some st'"
    by (auto split: if_splits sum.splits)
  have "parseLoop g args st = parseLoop g args st1"
    using s(1,2) by (subst parseLoop.simps) simp
  with Suc.IH [OF s(3)] show ?case by simp
qed

lemma parseSteps_same_tables:
  "parseSteps g args n st = Some st' \<Longrightarrow> same_tables st st'"
proof (induction n arbitrary: st)
  case 0
  then show ?case by (simp add: same_tables_def)
next
  case (Suc n)
  from Suc.prems obtain st1 where
    s: "hasNext args st" "parseStep g args st = Inr st1" "parseSteps g args n st1 = Some st'"
    by (auto split: if_splits sum.splits)
  from parseStep_advances [OF s(1), of g] s(2) have "same_tables st st1" by simp
  with Suc.IH [OF s(3)] show ?case by (simp add: same_tables_def)
qed

lemma parseStep_breakout:
  assumes "hasNext args st" "args ! idx st = ''--''"
  shows "parseStep g args st =
           Inr (st\<lparr>idx := length args,
                   parsed := parsed st @ map PositionalArg (drop (Suc (idx st)) args)\<rparr>)"
proof -
  have lt: "idx st < length args" using assms(1) by (simp add: hasNext_def)
  show ?thesis
  proof (cases "Suc (idx st) < length args")
    case True
    then show ?thesis using assms(2)
      by (simp add: parseStep_def getNext_def parseArg_def parseBreakOutArg_eq hasNext_def)
  next
    case False
    then have "Suc (idx st) = length args" using lt by simp
    then show ?thesis using assms(2)
      by (simp add: parseStep_def getNext_def parseArg_def parseBreakOutArg_eq hasNext_def)
  qed
qed

lemma parseLoop_breakout:
  assumes "hasNext args st" "args ! idx st = ''--''"
  shows "parseLoop g args st =
           Some (Inr (st\<lparr>idx := length args,
                   parsed := parsed st @ map PositionalArg (drop (Suc (idx st)) args)\<rparr>))"
proof -
  let ?st' = "st\<lparr>idx := length args,
                   parsed := parsed st @ map PositionalArg (drop (Suc (idx st)) args)\<rparr>"
  have "parseLoop g args st = parseLoop g args ?st'"
    using assms parseStep_breakout [OF assms, of g] by (subst parseLoop.simps) simp
  also have "\<dots> = Some (Inr ?st')"
    by (subst parseLoop.simps) (simp add: hasNext_def)
  finally show ?thesis .
qed

section \<open>Evaluating concrete inputs\<close>

lemmas registry_defs =
  createParserContext_def addKnownOptionToState_def expandAliases_def negatedAliases_def
  isFlagTypeOption_def set_add_def trie_set_def trie_get_def startsWith_def

lemmas step_defs =
  parseStep_def getNext_def hasNext_def putBack_def parseArg_def parseLongOptionArg_def
  parseShortOptionArg_def parseOptionWithPossibleParameter_def parseSubCommand_def
  parsePositionalArg_def hasSubCommand_def command_def positional_def option_def flag_def
  flagArg_def pushParsed_def isFlagTypeOption_def startsWith_def trie_get_def Let_def

section \<open>The repository's tests\<close>

text \<open>
  The four tests of the repository's test file, run on the model. The first one gives
  the same events when \<^verbatim>\<open>get\<close> finds exact keys only (\<open>map_of\<close>): the tests do not tell
  the two readings of \<^verbatim>\<open>get\<close> apart.
\<close>

lemma repository_test:
  "parse trie_get
     (Command
        [(''opt1'', \<lparr>type = TFlag, aliases = []\<rparr>),
         (''opt2'', \<lparr>type = TStrings, aliases = []\<rparr>),
         (''a'', \<lparr>type = TFlag, aliases = [''opt4'']\<rparr>)]
        [(''cmd1'', Command [(''b'', \<lparr>type = TString, aliases = []\<rparr>)]
                      [(''cmd2'', Command [] [])])])
     [''--opt1'', ''--opt2'', ''param2.1'', ''cmd1'', ''pos1'', ''--opt2'', ''param2.2'',
      ''-abc'', ''arg-for-c'', ''--opt3'', ''--no-opt3'', ''--opt4'', ''--opt5'', ''param5'',
      ''cmd2'', ''pos2'', ''--opt6'']
   = Some (Inr
      [FlagArg ''opt1'' True, OptionArg ''opt2'' ''param2.1'', CommandArg ''cmd1'',
       PositionalArg ''pos1'', OptionArg ''opt2'' ''param2.2'', FlagArg ''a'' True,
       FlagArg ''b'' True, OptionArg ''c'' ''arg-for-c'', FlagArg ''opt3'' True,
       FlagArg ''opt3'' False, FlagArg ''opt4'' True, OptionArg ''opt5'' ''param5'',
       CommandArg ''cmd2'', PositionalArg ''pos2'', FlagArg ''opt6'' True])"
  by code_simp

lemma repository_test_exact_get:
  "parse map_of
     (Command
        [(''opt1'', \<lparr>type = TFlag, aliases = []\<rparr>),
         (''opt2'', \<lparr>type = TStrings, aliases = []\<rparr>),
         (''a'', \<lparr>type = TFlag, aliases = [''opt4'']\<rparr>)]
        [(''cmd1'', Command [(''b'', \<lparr>type = TString, aliases = []\<rparr>)]
                      [(''cmd2'', Command [] [])])])
     [''--opt1'', ''--opt2'', ''param2.1'', ''cmd1'', ''pos1'', ''--opt2'', ''param2.2'',
      ''-abc'', ''arg-for-c'', ''--opt3'', ''--no-opt3'', ''--opt4'', ''--opt5'', ''param5'',
      ''cmd2'', ''pos2'', ''--opt6'']
   = Some (Inr
      [FlagArg ''opt1'' True, OptionArg ''opt2'' ''param2.1'', CommandArg ''cmd1'',
       PositionalArg ''pos1'', OptionArg ''opt2'' ''param2.2'', FlagArg ''a'' True,
       FlagArg ''b'' True, OptionArg ''c'' ''arg-for-c'', FlagArg ''opt3'' True,
       FlagArg ''opt3'' False, FlagArg ''opt4'' True, OptionArg ''opt5'' ''param5'',
       CommandArg ''cmd2'', PositionalArg ''pos2'', FlagArg ''opt6'' True])"
  by code_simp

lemma repository_tests_foobar:
  "parse trie_get (Command [(''foobar'', \<lparr>type = TString, aliases = []\<rparr>)] [])
     [''--foobar'', ''trot''] = Some (Inr [OptionArg ''foobar'' ''trot''])
   \<and> parse trie_get (Command [(''foobar'', \<lparr>type = TFlag, aliases = []\<rparr>)] [])
     [''--foobar'', ''trot''] = Some (Inr [FlagArg ''foobar'' True, PositionalArg ''trot''])
   \<and> parse trie_get (Command [(''food'', \<lparr>type = TFlag, aliases = []\<rparr>),
                               (''foobar'', \<lparr>type = TString, aliases = []\<rparr>)] [])
     [''--foob'', ''trot''] = Some (Inr [OptionArg ''foob'' ''trot''])"
  by code_simp

section \<open>Splitting at the equals sign\<close>

lemma split_eq_not_Nil [simp]: "split_eq s \<noteq> []"
  by (induction s) auto

lemma join_eq_Cons: "ps \<noteq> [] \<Longrightarrow> join_eq (p # ps) = p @ ''='' @ join_eq ps"
  by (cases ps) auto

lemma join_split_eq: "join_eq (split_eq s) = s"
proof (induction s)
  case Nil
  then show ?case by simp
next
  case (Cons c cs)
  obtain p ps where sp: "split_eq cs = p # ps" by (cases "split_eq cs") auto
  show ?case
  proof (cases "c = CHR ''=''")
    case True
    then show ?thesis using Cons.IH by (simp add: join_eq_Cons)
  next
    case False
    then show ?thesis using Cons.IH sp by (cases ps) auto
  qed
qed

lemma hd_split_eq: "hd (split_eq s) = takeWhile (\<lambda>c. c \<noteq> CHR ''='') s"
  by (induction s) auto

lemma tl_split_eq_Nil: "(tl (split_eq s) = []) = (CHR ''='' \<notin> set s)"
  by (induction s) auto

lemma join_tl_split_eq:
  "join_eq (tl (split_eq s)) = drop 1 (dropWhile (\<lambda>c. c \<noteq> CHR ''='') s)"
proof (induction s)
  case Nil
  then show ?case by simp
next
  case (Cons c cs)
  then show ?case by (simp add: join_split_eq)
qed

section \<open>One iteration at an option token\<close>

lemma parseStep_long:
  assumes "hasNext args st" "args ! idx st = ''--'' @ nm" "nm \<noteq> []" "CHR ''='' \<notin> set nm"
  shows "parseStep g args st =
           parseOptionWithPossibleParameter nm (g (longOptions st) nm) args (idx st)
             (st\<lparr>idx := Suc (idx st)\<rparr>)"
proof -
  have ne: "''--'' @ nm \<noteq> ''--''" "''--'' @ nm \<noteq> ''-''" "startsWith (''--'' @ nm) ''--''"
    using assms(3) by (simp_all add: startsWith_def)
  have sp: "tl (split_eq nm) = []" "hd (split_eq nm) = nm"
    using assms(4) by (auto simp: tl_split_eq_Nil hd_split_eq)
  show ?thesis
    unfolding parseStep_def getNext_def using ne sp assms(2)
    by (simp add: parseArg_def parseLongOptionArg_def Let_def)
qed

lemma parseStep_short:
  assumes "hasNext args st" "args ! idx st = CHR ''-'' # body" "body \<noteq> []"
    "hd body \<noteq> CHR ''-''"
  shows "parseStep g args st =
     (let names = takeWhile (\<lambda>c. c \<noteq> CHR ''='') body;
          lastName = (if names = [] then [] else [last names]);
          st1 = st\<lparr>idx := Suc (idx st),
                    parsed := parsed st @ map (\<lambda>c. FlagArg [c] True) (butlast names)\<rparr>
      in if CHR ''='' \<in> set body
         then Inr (option lastName (drop 1 (dropWhile (\<lambda>c. c \<noteq> CHR ''='') body)) st1)
         else parseOptionWithPossibleParameter lastName (shortOptions st lastName)
                args (idx st) st1)"
proof -
  let ?arg = "CHR ''-'' # body"
  obtain b bs where body: "body = b # bs" using assms(3) by (cases body) auto
  have cls: "?arg \<noteq> ''--''" "?arg \<noteq> ''-''" "\<not> startsWith ?arg ''--''" "startsWith ?arg ''-''"
    using assms(3,4) body by (auto simp: startsWith_def)
  let ?names = "takeWhile (\<lambda>c. c \<noteq> CHR ''='') body"
  have last: "drop (length ?names - Suc 0) ?names = (if ?names = [] then [] else [last ?names])"
    by (cases "?names" rule: rev_cases) auto
  have first: "take (length ?names - Suc 0) ?names = butlast ?names"
    by (simp add: butlast_conv_take)
  have "parseStep g args st = parseShortOptionArg ?arg args (idx st) (st\<lparr>idx := Suc (idx st)\<rparr>)"
    unfolding parseStep_def getNext_def using cls assms(2) by (simp add: parseArg_def)
  also have "\<dots> =
     (let names = ?names;
          lastName = (if names = [] then [] else [last names]);
          st1 = st\<lparr>idx := Suc (idx st),
                    parsed := parsed st @ map (\<lambda>c. FlagArg [c] True) (butlast names)\<rparr>
      in if CHR ''='' \<in> set body
         then Inr (option lastName (drop 1 (dropWhile (\<lambda>c. c \<noteq> CHR ''='') body)) st1)
         else parseOptionWithPossibleParameter lastName (shortOptions st lastName)
                args (idx st) st1)"
    unfolding parseShortOptionArg_def Let_def
    by (simp add: hd_split_eq tl_split_eq_Nil join_tl_split_eq last first fold_flag
          option_def pushParsed_def)
  finally show ?thesis .
qed

lemma parseStep_long_eq:
  assumes "hasNext args st" "args ! idx st = ''--'' @ nm @ ''='' @ v" "CHR ''='' \<notin> set nm"
  shows "parseStep g args st
           = Inr (st\<lparr>idx := Suc (idx st), parsed := parsed st @ [OptionArg nm v]\<rparr>)"
proof -
  let ?arg = "''--'' @ nm @ ''='' @ v"
  have cls: "?arg \<noteq> ''--''" "?arg \<noteq> ''-''" "startsWith ?arg ''--''"
    by (simp_all add: startsWith_def)
  have tw: "takeWhile (\<lambda>c. c \<noteq> CHR ''='') (nm @ ''='' @ v) = nm"
    using assms(3) by (induction nm) auto
  have dw: "dropWhile (\<lambda>c. c \<noteq> CHR ''='') (nm @ ''='' @ v) = ''='' @ v"
    using assms(3) by (induction nm) auto
  have sp: "hd (split_eq (nm @ ''='' @ v)) = nm" "tl (split_eq (nm @ ''='' @ v)) \<noteq> []"
    "join_eq (tl (split_eq (nm @ ''='' @ v))) = v"
    using tw dw by (simp_all add: hd_split_eq tl_split_eq_Nil join_tl_split_eq)
  show ?thesis
    unfolding parseStep_def getNext_def using cls sp assms(2)
    by (simp add: parseArg_def parseLongOptionArg_def Let_def option_def pushParsed_def)
qed

section \<open>Breakout (C2)\<close>

lemma parse_breakout_at:
  assumes "createParserContext g cmd = Inr st0"
    and "parseSteps g args n st0 = Some st"
    and "hasNext args st"
    and "args ! idx st = ''--''"
  shows "parse g cmd args =
           Some (Inr (parsed st @ map PositionalArg (drop (Suc (idx st)) args)))"
proof -
  have "parseResults g cmd args = parseLoop g args st0"
    using assms(1) by (simp add: parseResults_def)
  also have "\<dots> = parseLoop g args st"
    using assms(2) by (rule parseSteps_parseLoop)
  finally show ?thesis
    using parseLoop_breakout [OF assms(3,4), of g] by (simp add: parse_def)
qed

lemma parseOptionWithPossibleParameter_size:
  assumes "argIdx < idx st"
  shows "\<exists>st'. parseOptionWithPossibleParameter nm opt args argIdx st = Inr st'
           \<and> (idx st' = idx st
                \<or> idx st' = Suc (idx st) \<and> hasNext args st
                    \<and> parsed st' = parsed st @ [OptionArg nm (args ! idx st)]
                    \<and> ((\<exists>known. opt = Some known \<and> \<not> isFlagTypeOption known)
                        \<or> opt = None \<and> \<not> startsWith (args ! idx st) ''-''))"
  using assms
  by (auto simp: parseOptionWithPossibleParameter_def putBack_def getNext_def flag_def
        option_def pushParsed_def hasNext_def Let_def split: option.splits)

lemma long_token_shape:
  assumes "startsWith arg ''--''" "tl (split_eq (drop 2 arg)) = []"
  shows "arg = ''--'' @ hd (split_eq (drop 2 arg))"
proof -
  have "CHR ''='' \<notin> set (drop 2 arg)" using assms(2) by (simp add: tl_split_eq_Nil)
  then have "takeWhile (\<lambda>c. c \<noteq> CHR ''='') (drop 2 arg) = drop 2 arg" by auto
  then have "hd (split_eq (drop 2 arg)) = drop 2 arg" by (simp add: hd_split_eq)
  moreover have "take 2 arg = ''--''"
    using assms(1) by (simp add: startsWith_def numeral_2_eq_2)
  ultimately show ?thesis by (metis append_take_drop_id)
qed

lemma short_token_shape:
  assumes "startsWith arg ''-''" "arg \<noteq> ''-''" "tl (split_eq (drop 1 arg)) = []"
  shows "arg = CHR ''-'' # drop 1 arg \<and> drop 1 arg \<noteq> []
         \<and> hd (split_eq (drop 1 arg)) = drop 1 arg
         \<and> drop (length (drop 1 arg) - 1) (drop 1 arg) = [last (drop 1 arg)]"
proof -
  obtain body where arg: "arg = CHR ''-'' # body"
    using assms(1) by (cases arg) (auto simp: startsWith_def)
  with assms(2) have ne: "body \<noteq> []" by auto
  have d: "drop 1 arg = body" using arg by simp
  have "CHR ''='' \<notin> set body" using assms(3) d by (simp add: tl_split_eq_Nil)
  then have "takeWhile (\<lambda>c. c \<noteq> CHR ''='') body = body" by auto
  then have h: "hd (split_eq body) = body" by (simp add: hd_split_eq)
  have l: "drop (length body - 1) body = [last body]"
    using ne by (cases body rule: rev_cases) auto
  show ?thesis using arg ne h l d by simp
qed

lemma parseStep_size:
  assumes "hasNext args st" "args ! idx st \<noteq> ''--''"
  shows "\<exists>st'. parseStep g args st = Inr st'
           \<and> (idx st' = Suc (idx st)
                \<or> idx st' = Suc (Suc (idx st)) \<and> Suc (idx st) < length args
                    \<and> parsed st' \<noteq> []
                    \<and> (\<exists>nm opt. last (parsed st') = OptionArg nm (args ! Suc (idx st))
                          \<and> (args ! idx st = ''--'' @ nm \<and> opt = g (longOptions st) nm
                              \<or> (\<exists>body. args ! idx st = CHR ''-'' # body \<and> body \<noteq> []
                                    \<and> nm = [last body] \<and> opt = shortOptions st nm))
                          \<and> ((\<exists>known. opt = Some known \<and> \<not> isFlagTypeOption known)
                              \<or> opt = None \<and> \<not> startsWith (args ! Suc (idx st)) ''-'')))"
proof -
  let ?arg = "args ! idx st"
  let ?st1 = "st\<lparr>idx := idx st + 1\<rparr>"
  have step: "parseStep g args st = parseArg g ?arg args (idx st) ?st1"
    by (simp add: parseStep_def getNext_def)
  have lt: "idx st < idx ?st1" by simp
  consider (dash) "?arg = ''-''"
    | (long) "?arg \<noteq> ''-''" "startsWith ?arg ''--''"
    | (short) "?arg \<noteq> ''-''" "\<not> startsWith ?arg ''--''" "startsWith ?arg ''-''"
    | (other) "?arg \<noteq> ''-''" "\<not> startsWith ?arg ''--''" "\<not> startsWith ?arg ''-''"
    by blast
  then show ?thesis
  proof cases
    case dash
    then show ?thesis using assms(2) unfolding step
      by (simp add: parseArg_def parsePositionalArg_def positional_def pushParsed_def)
  next
    case long
    let ?nm = "hd (split_eq (drop 2 ?arg))"
    show ?thesis
    proof (cases "tl (split_eq (drop 2 ?arg)) \<noteq> []")
      case True
      then show ?thesis using long assms(2) unfolding step
        by (simp add: parseArg_def parseLongOptionArg_def Let_def option_def pushParsed_def)
    next
      case False
      then have shape: "?arg = ''--'' @ ?nm"
        using long_token_shape [OF long(2)] by simp
      from parseOptionWithPossibleParameter_size [OF lt, of ?nm "g (longOptions ?st1) ?nm" args]
      obtain st' where
        r: "parseOptionWithPossibleParameter ?nm (g (longOptions ?st1) ?nm) args (idx st) ?st1
              = Inr st'"
        and sz: "idx st' = idx ?st1 \<or> idx st' = Suc (idx ?st1) \<and> hasNext args ?st1
            \<and> parsed st' = parsed ?st1 @ [OptionArg ?nm (args ! idx ?st1)]
            \<and> ((\<exists>known. g (longOptions ?st1) ?nm = Some known \<and> \<not> isFlagTypeOption known)
                \<or> g (longOptions ?st1) ?nm = None \<and> \<not> startsWith (args ! idx ?st1) ''-'')"
        by blast
      have ps: "parseStep g args st = Inr st'"
        using r long assms(2) False unfolding step
        by (simp add: parseArg_def parseLongOptionArg_def Let_def)
      from sz show ?thesis
      proof
        assume "idx st' = idx ?st1"
        with ps show ?thesis by simp
      next
        assume two: "idx st' = Suc (idx ?st1) \<and> hasNext args ?st1
            \<and> parsed st' = parsed ?st1 @ [OptionArg ?nm (args ! idx ?st1)]
            \<and> ((\<exists>known. g (longOptions ?st1) ?nm = Some known \<and> \<not> isFlagTypeOption known)
                \<or> g (longOptions ?st1) ?nm = None \<and> \<not> startsWith (args ! idx ?st1) ''-'')"
        have "\<exists>nm opt. last (parsed st') = OptionArg nm (args ! Suc (idx st))
                \<and> (?arg = ''--'' @ nm \<and> opt = g (longOptions st) nm
                    \<or> (\<exists>body. ?arg = CHR ''-'' # body \<and> body \<noteq> []
                          \<and> nm = [last body] \<and> opt = shortOptions st nm))
                \<and> ((\<exists>known. opt = Some known \<and> \<not> isFlagTypeOption known)
                    \<or> opt = None \<and> \<not> startsWith (args ! Suc (idx st)) ''-'')"
          apply (rule exI [of _ ?nm])
          apply (rule exI [of _ "g (longOptions st) ?nm"])
          using two shape by simp
        with ps two show ?thesis by (simp add: hasNext_def)
      qed
    qed
  next
    case short
    let ?body = "drop 1 ?arg"
    let ?names = "hd (split_eq ?body)"
    let ?last = "drop (length ?names - 1) ?names"
    let ?st2 = "fold (\<lambda>shortOpt. flag [shortOpt]) (take (length ?names - 1) ?names) ?st1"
    have st2: "idx ?st2 = Suc (idx st)" "shortOptions ?st2 = shortOptions st"
      by (simp_all add: fold_flag)
    show ?thesis
    proof (cases "tl (split_eq ?body) \<noteq> []")
      case True
      then show ?thesis using short assms(2) st2 unfolding step
        by (simp add: parseArg_def parseShortOptionArg_def Let_def option_def pushParsed_def)
    next
      case False
      with short_token_shape [OF short(3) short(1)]
      have shape: "?arg = CHR ''-'' # ?body" "?body \<noteq> []" "?names = ?body"
        "drop (length ?body - 1) ?body = [last ?body]"
        by simp_all
      then have lastnm: "?last = [last ?body]" by simp
      have lt2: "idx st < idx ?st2" using st2 by simp
      from parseOptionWithPossibleParameter_size [OF lt2, of ?last "shortOptions ?st2 ?last" args]
      obtain st' where
        r: "parseOptionWithPossibleParameter ?last (shortOptions ?st2 ?last) args (idx st) ?st2
              = Inr st'"
        and sz: "idx st' = idx ?st2 \<or> idx st' = Suc (idx ?st2) \<and> hasNext args ?st2
            \<and> parsed st' = parsed ?st2 @ [OptionArg ?last (args ! idx ?st2)]
            \<and> ((\<exists>known. shortOptions ?st2 ?last = Some known \<and> \<not> isFlagTypeOption known)
                \<or> shortOptions ?st2 ?last = None \<and> \<not> startsWith (args ! idx ?st2) ''-'')"
        by blast
      have ps: "parseStep g args st = Inr st'"
        using r short assms(2) False unfolding step
        by (simp add: parseArg_def parseShortOptionArg_def Let_def)
      from sz show ?thesis
      proof
        assume "idx st' = idx ?st2"
        with ps st2 show ?thesis by simp
      next
        assume two: "idx st' = Suc (idx ?st2) \<and> hasNext args ?st2
            \<and> parsed st' = parsed ?st2 @ [OptionArg ?last (args ! idx ?st2)]
            \<and> ((\<exists>known. shortOptions ?st2 ?last = Some known \<and> \<not> isFlagTypeOption known)
                \<or> shortOptions ?st2 ?last = None \<and> \<not> startsWith (args ! idx ?st2) ''-'')"
        have "\<exists>nm opt. last (parsed st') = OptionArg nm (args ! Suc (idx st))
                \<and> (?arg = ''--'' @ nm \<and> opt = g (longOptions st) nm
                    \<or> (\<exists>body. ?arg = CHR ''-'' # body \<and> body \<noteq> []
                          \<and> nm = [last body] \<and> opt = shortOptions st nm))
                \<and> ((\<exists>known. opt = Some known \<and> \<not> isFlagTypeOption known)
                    \<or> opt = None \<and> \<not> startsWith (args ! Suc (idx st)) ''-'')"
          apply (rule exI [of _ "[last ?body]"])
          apply (rule exI [of _ "shortOptions st [last ?body]"])
          using two shape(1,2) lastnm st2 by auto
        with ps two st2 show ?thesis by (simp add: hasNext_def)
      qed
    qed
  next
    case other
    then show ?thesis using assms(2) unfolding step
      by (simp add: parseArg_def parsePositionalArg_def positional_def pushParsed_def
            parseSubCommand_def command_def split: option.splits)
  qed
qed

lemma parseSteps_Suc:
  "hasNext args st \<Longrightarrow> parseStep g args st = Inr st' \<Longrightarrow> parseSteps g args n st' = Some st''
     \<Longrightarrow> parseSteps g args (Suc n) st = Some st''"
  by simp

lemma parseSteps_trans:
  "parseSteps g args n st = Some st' \<Longrightarrow> parseSteps g args m st' = Some st''
     \<Longrightarrow> parseSteps g args (n + m) st = Some st''"
  by (induction n arbitrary: st) (auto split: if_splits sum.splits)

lemma first_marker_reached_or_consumed:
  assumes "i < length args" "args ! i = ''--''" "\<forall>j<i. args ! j \<noteq> ''--''"
  shows "idx st \<le> i \<Longrightarrow>
     \<exists>n st1. parseSteps g args n st = Some st1
       \<and> (idx st1 = i
          \<or> Suc (idx st1) = i
             \<and> (\<exists>st2 nm known. parseStep g args st1 = Inr st2 \<and> idx st2 = Suc i
                   \<and> parsed st2 \<noteq> [] \<and> last (parsed st2) = OptionArg nm ''--''
                   \<and> \<not> isFlagTypeOption known
                   \<and> (args ! idx st1 = ''--'' @ nm \<and> g (longOptions st1) nm = Some known
                       \<or> (\<exists>body. args ! idx st1 = CHR ''-'' # body \<and> body \<noteq> []
                             \<and> nm = [last body] \<and> shortOptions st1 nm = Some known))))"
proof (induction "i - idx st" arbitrary: st rule: less_induct)
  case less
  show ?case
  proof (cases "idx st = i")
    case True
    have "parseSteps g args 0 st = Some st" by simp
    with True show ?thesis by blast
  next
    case False
    with less.prems have lt: "idx st < i" by simp
    then have h: "hasNext args st" and ne: "args ! idx st \<noteq> ''--''"
      using assms(1,3) by (simp_all add: hasNext_def)
    from parseStep_size [OF h ne, of g] obtain st' where
      s: "parseStep g args st = Inr st'"
      and sz: "idx st' = Suc (idx st)
           \<or> idx st' = Suc (Suc (idx st)) \<and> Suc (idx st) < length args \<and> parsed st' \<noteq> []
               \<and> (\<exists>nm opt. last (parsed st') = OptionArg nm (args ! Suc (idx st))
                     \<and> (args ! idx st = ''--'' @ nm \<and> opt = g (longOptions st) nm
                         \<or> (\<exists>body. args ! idx st = CHR ''-'' # body \<and> body \<noteq> []
                               \<and> nm = [last body] \<and> opt = shortOptions st nm))
                     \<and> ((\<exists>known. opt = Some known \<and> \<not> isFlagTypeOption known)
                         \<or> opt = None \<and> \<not> startsWith (args ! Suc (idx st)) ''-''))"
      by blast
    show ?thesis
    proof (cases "idx st' \<le> i")
      case True
      have "i - idx st' < i - idx st" using sz lt by auto
      from less.hyps [OF this True] obtain n st1 where
        r: "parseSteps g args n st' = Some st1"
        "idx st1 = i
          \<or> Suc (idx st1) = i
             \<and> (\<exists>st2 nm known. parseStep g args st1 = Inr st2 \<and> idx st2 = Suc i
                   \<and> parsed st2 \<noteq> [] \<and> last (parsed st2) = OptionArg nm ''--''
                   \<and> \<not> isFlagTypeOption known
                   \<and> (args ! idx st1 = ''--'' @ nm \<and> g (longOptions st1) nm = Some known
                       \<or> (\<exists>body. args ! idx st1 = CHR ''-'' # body \<and> body \<noteq> []
                             \<and> nm = [last body] \<and> shortOptions st1 nm = Some known)))"
        by blast
      from parseSteps_Suc [OF h s r(1)] r(2) show ?thesis by blast
    next
      case False
      with sz lt have two: "idx st' = Suc (Suc (idx st))" "Suc (idx st) = i"
        "parsed st' \<noteq> []"
        by auto
      from sz False lt obtain nm opt where
        ev: "last (parsed st') = OptionArg nm (args ! Suc (idx st))"
        and tok: "args ! idx st = ''--'' @ nm \<and> opt = g (longOptions st) nm
                  \<or> (\<exists>body. args ! idx st = CHR ''-'' # body \<and> body \<noteq> []
                        \<and> nm = [last body] \<and> opt = shortOptions st nm)"
        and res: "(\<exists>known. opt = Some known \<and> \<not> isFlagTypeOption known)
                  \<or> opt = None \<and> \<not> startsWith (args ! Suc (idx st)) ''-''"
        by auto
      have "startsWith (args ! Suc (idx st)) ''-''"
        using two(2) assms(2) by (simp add: startsWith_def)
      with res obtain known where k: "opt = Some known" "\<not> isFlagTypeOption known" by blast
      have "parseSteps g args 0 st = Some st" by simp
      moreover have "\<exists>st2 nm known. parseStep g args st = Inr st2 \<and> idx st2 = Suc i
          \<and> parsed st2 \<noteq> [] \<and> last (parsed st2) = OptionArg nm ''--''
          \<and> \<not> isFlagTypeOption known
          \<and> (args ! idx st = ''--'' @ nm \<and> g (longOptions st) nm = Some known
              \<or> (\<exists>body. args ! idx st = CHR ''-'' # body \<and> body \<noteq> []
                    \<and> nm = [last body] \<and> shortOptions st nm = Some known))"
        apply (rule exI [of _ st'])
        apply (rule exI [of _ nm])
        apply (rule exI [of _ known])
        using s two ev tok k assms(2) by auto
      ultimately show ?thesis using two(2) by blast
    qed
  qed
qed


text \<open>
  C2, as the code has it. When an iteration of the loop begins at a token \<^verbatim>\<open>--\<close>, every
  token after it is emitted as a positional event, verbatim and in input order, whatever
  it looks like, and the marker itself is not emitted: the result of the parse is the
  events emitted so far followed by these positionals. For the first \<^verbatim>\<open>--\<close> of the input
  there are two cases only: an iteration begins at it, or the token before it is an
  option token \<^verbatim>\<open>--nm\<close> or a short cluster ending in \<open>nm\<close> whose name the tables resolve to
  a known definition that takes a value, and that iteration consumes the \<^verbatim>\<open>--\<close> as the
  value of its option event.
\<close>

theorem breakout_when_reached:
  assumes "createParserContext g cmd = Inr st0"
  shows "(parseSteps g args n st0 = Some st \<and> hasNext args st \<and> args ! idx st = ''--''
          \<longrightarrow> parse g cmd args
                = Some (Inr (parsed st @ map PositionalArg (drop (Suc (idx st)) args))))
       \<and> (i < length args \<and> args ! i = ''--'' \<and> (\<forall>j<i. args ! j \<noteq> ''--'')
          \<longrightarrow> (\<exists>m st1. parseSteps g args m st0 = Some st1
                 \<and> (idx st1 = i
                    \<or> Suc (idx st1) = i
                       \<and> (\<exists>st2 nm known. parseStep g args st1 = Inr st2 \<and> idx st2 = Suc i
                             \<and> parsed st2 \<noteq> []
                             \<and> last (parsed st2) = OptionArg nm ''--''
                             \<and> \<not> isFlagTypeOption known
                             \<and> (args ! idx st1 = ''--'' @ nm
                                   \<and> g (longOptions st1) nm = Some known
                                 \<or> (\<exists>body. args ! idx st1 = CHR ''-'' # body \<and> body \<noteq> []
                                       \<and> nm = [last body]
                                       \<and> shortOptions st1 nm = Some known))))))"
proof (intro conjI impI)
  assume "parseSteps g args n st0 = Some st \<and> hasNext args st \<and> args ! idx st = ''--''"
  then show "parse g cmd args
      = Some (Inr (parsed st @ map PositionalArg (drop (Suc (idx st)) args)))"
    using parse_breakout_at [OF assms, of args n st] by simp
next
  assume a: "i < length args \<and> args ! i = ''--'' \<and> (\<forall>j<i. args ! j \<noteq> ''--'')"
  have "idx st0 \<le> i" using createParserContext_initial [OF assms] by simp
  from first_marker_reached_or_consumed [of i args st0 g, OF _ _ _ this] a
  show "\<exists>m st1. parseSteps g args m st0 = Some st1
                 \<and> (idx st1 = i
                    \<or> Suc (idx st1) = i
                       \<and> (\<exists>st2 nm known. parseStep g args st1 = Inr st2 \<and> idx st2 = Suc i
                             \<and> parsed st2 \<noteq> []
                             \<and> last (parsed st2) = OptionArg nm ''--''
                             \<and> \<not> isFlagTypeOption known
                             \<and> (args ! idx st1 = ''--'' @ nm
                                   \<and> g (longOptions st1) nm = Some known
                                 \<or> (\<exists>body. args ! idx st1 = CHR ''-'' # body \<and> body \<noteq> []
                                       \<and> nm = [last body]
                                       \<and> shortOptions st1 nm = Some known))))"
    by simp
qed

theorem breakout_when_reached_witness:
  "(\<exists>st0 st.
      createParserContext trie_get (Command [(''v'', \<lparr>type = TFlag, aliases = []\<rparr>)] []) = Inr st0
      \<and> parseSteps trie_get [''-v'', ''--'', ''-x'', ''--y''] (Suc 0) st0 = Some st
      \<and> hasNext [''-v'', ''--'', ''-x'', ''--y''] st
      \<and> [''-v'', ''--'', ''-x'', ''--y''] ! idx st = ''--'')
   \<and> parse trie_get (Command [(''v'', \<lparr>type = TFlag, aliases = []\<rparr>)] [])
        [''-v'', ''--'', ''-x'', ''--y'']
      = Some (Inr [FlagArg ''v'' True, PositionalArg ''-x'', PositionalArg ''--y''])
   \<and> (\<exists>st0 m st1.
        createParserContext trie_get (Command [(''c'', \<lparr>type = TString, aliases = []\<rparr>)] [])
          = Inr st0
        \<and> parseSteps trie_get [''-c'', ''--'', ''-x''] m st0 = Some st1
        \<and> (idx st1 = 1
           \<or> Suc (idx st1) = 1
              \<and> (\<exists>st2 nm known. parseStep trie_get [''-c'', ''--'', ''-x''] st1 = Inr st2
                    \<and> idx st2 = Suc 1 \<and> parsed st2 \<noteq> []
                    \<and> last (parsed st2) = OptionArg nm ''--''
                    \<and> \<not> isFlagTypeOption known
                    \<and> ([''-c'', ''--'', ''-x''] ! idx st1 = ''--'' @ nm
                          \<and> trie_get (longOptions st1) nm = Some known
                        \<or> (\<exists>body. [''-c'', ''--'', ''-x''] ! idx st1 = CHR ''-'' # body
                              \<and> body \<noteq> [] \<and> nm = [last body]
                              \<and> shortOptions st1 nm = Some known)))))"
proof -
  let ?cmd = "Command [(''v'', \<lparr>type = TFlag, aliases = []\<rparr>)] []"
  let ?args = "[''-v'', ''--'', ''-x'', ''--y'']"
  let ?v = "\<lparr>type = TFlag, aliases = [], name = ''v''\<rparr>"
  let ?init = "\<lparr>knownOptionNames = [''v''], longOptions = [],
               shortOptions = [''v'' \<mapsto> ?v], topCommand = ?cmd, parsed = [], idx = 0\<rparr>"
  let ?cur = "\<lparr>knownOptionNames = [''v''], longOptions = [],
              shortOptions = [''v'' \<mapsto> ?v], topCommand = ?cmd,
              parsed = [FlagArg ''v'' True], idx = 1\<rparr>"
  let ?cmdc = "Command [(''c'', \<lparr>type = TString, aliases = []\<rparr>)] []"
  let ?argsc = "[''-c'', ''--'', ''-x'']"
  let ?c = "\<lparr>type = TString, aliases = [], name = ''c''\<rparr>"
  let ?initc = "\<lparr>knownOptionNames = [''c''], longOptions = [],
               shortOptions = [''c'' \<mapsto> ?c], topCommand = ?cmdc, parsed = [], idx = 0\<rparr>"
  have b: "createParserContext trie_get ?cmd = Inr ?init"
    by (simp add: registry_defs)
  have s: "parseSteps trie_get ?args (Suc 0) ?init = Some ?cur"
    by (simp add: step_defs)
  have h: "hasNext ?args ?cur" by (simp add: hasNext_def)
  have t: "?args ! idx ?cur = ''--''" by simp
  note T = breakout_when_reached [OF b, of ?args "Suc 0" ?cur 1]
  have p: "parse trie_get ?cmd ?args
          = Some (Inr [FlagArg ''v'' True, PositionalArg ''-x'', PositionalArg ''--y''])"
    using mp [OF T [THEN conjunct1]] s h t by simp
  have bc: "createParserContext trie_get ?cmdc = Inr ?initc"
    by (simp add: registry_defs)
  have f: "1 < length ?argsc \<and> ?argsc ! 1 = ''--'' \<and> (\<forall>j<1. ?argsc ! j \<noteq> ''--'')"
    by simp
  note U = breakout_when_reached [OF bc, of ?argsc 0 ?initc 1]
  have d: "\<exists>m st1. parseSteps trie_get ?argsc m ?initc = Some st1
        \<and> (idx st1 = 1
           \<or> Suc (idx st1) = 1
              \<and> (\<exists>st2 nm known. parseStep trie_get ?argsc st1 = Inr st2
                    \<and> idx st2 = Suc 1 \<and> parsed st2 \<noteq> []
                    \<and> last (parsed st2) = OptionArg nm ''--''
                    \<and> \<not> isFlagTypeOption known
                    \<and> (?argsc ! idx st1 = ''--'' @ nm
                          \<and> trie_get (longOptions st1) nm = Some known
                        \<or> (\<exists>body. ?argsc ! idx st1 = CHR ''-'' # body
                              \<and> body \<noteq> [] \<and> nm = [last body]
                              \<and> shortOptions st1 nm = Some known))))"
    by (rule mp [OF U [THEN conjunct2] f])
  from b s h t have first: "\<exists>st0 st.
      createParserContext trie_get ?cmd = Inr st0
      \<and> parseSteps trie_get ?args (Suc 0) st0 = Some st
      \<and> hasNext ?args st \<and> ?args ! idx st = ''--''"
    by blast
  from bc d have third: "\<exists>st0 m st1.
        createParserContext trie_get ?cmdc = Inr st0
        \<and> parseSteps trie_get ?argsc m st0 = Some st1
        \<and> (idx st1 = 1
           \<or> Suc (idx st1) = 1
              \<and> (\<exists>st2 nm known. parseStep trie_get ?argsc st1 = Inr st2
                    \<and> idx st2 = Suc 1 \<and> parsed st2 \<noteq> []
                    \<and> last (parsed st2) = OptionArg nm ''--''
                    \<and> \<not> isFlagTypeOption known
                    \<and> (?argsc ! idx st1 = ''--'' @ nm
                          \<and> trie_get (longOptions st1) nm = Some known
                        \<or> (\<exists>body. ?argsc ! idx st1 = CHR ''-'' # body
                              \<and> body \<noteq> [] \<and> nm = [last body]
                              \<and> shortOptions st1 nm = Some known))))"
    by (intro exI [of _ ?initc]) simp
  from first p third show ?thesis by (intro conjI)
qed

text \<open>
  C2 as stated does not hold for every token list. A known option that takes a
  value consumes the token after it, also when that token is \<^verbatim>\<open>--\<close>: here the first
  \<^verbatim>\<open>--\<close> becomes the value of \<^verbatim>\<open>-c\<close>, and the token \<^verbatim>\<open>-x\<close> after it is a flag, not a positional.
\<close>

theorem breakout_counterexample:
  "parse trie_get (Command [(''c'', \<lparr>type = TString, aliases = []\<rparr>)] [])
     [''-c'', ''--'', ''-x'']
   = Some (Inr [OptionArg ''c'' ''--'', FlagArg ''x'' True])"
  by code_simp

section \<open>The cursor's putback (C7)\<close>

lemma parseOption_known_flag_peek:
  assumes "argIdx < idx st" "hasNext args st" "isFlagTypeOption known"
  shows "parseOptionWithPossibleParameter nm (Some known) args argIdx st = Inr (flag nm st)"
  using assms
  by (simp add: parseOptionWithPossibleParameter_def getNext_def putBack_def Let_def)

text \<open>
  C7, as the code has it. In an iteration that began at index \<open>idx st\<close>, a \<^verbatim>\<open>putBack\<close>
  after the peek succeeds and gives back the peeked token: the cursor is where it was
  before the peek. A second \<^verbatim>\<open>putBack\<close> in the same iteration succeeds as well and gives
  back the iteration's own token; only the third one raises \<^verbatim>\<open>CursorUnderflow\<close>. In
  general \<^verbatim>\<open>putBack\<close> raises exactly when the cursor is not beyond the index at which the
  iteration began. The resolver peeks and puts back once for a known flag, which leaves
  the peeked token unconsumed, and no iteration of the loop raises.
\<close>

theorem putBack_within_step:
  "putBack (idx st) (snd (getNext args (snd (getNext args st)))) = Inr (snd (getNext args st))
   \<and> putBack (idx st) (snd (getNext args st)) = Inr st
   \<and> putBack (idx st) st = Inl CursorUnderflow
   \<and> (putBack argIdx st = Inl CursorUnderflow) = (idx st \<le> argIdx)
   \<and> (argIdx < idx st \<and> hasNext args st \<and> isFlagTypeOption known
        \<longrightarrow> parseOptionWithPossibleParameter nm (Some known) args argIdx st
              = Inr (flag nm st))
   \<and> (hasNext args st \<longrightarrow> (\<exists>st'. parseStep g args st = Inr st'))"
proof (intro conjI impI)
  assume "hasNext args st"
  from parseStep_advances [OF this, of g] show "\<exists>st'. parseStep g args st = Inr st'" by blast
next
  assume "argIdx < idx st \<and> hasNext args st \<and> isFlagTypeOption known"
  then show "parseOptionWithPossibleParameter nm (Some known) args argIdx st = Inr (flag nm st)"
    by (simp add: parseOption_known_flag_peek)
qed (auto simp: putBack_def getNext_def)

theorem putBack_within_step_witness:
  "putBack 0 \<lparr>knownOptionNames = [], longOptions = [], shortOptions = Map.empty,
              topCommand = Command [] [], parsed = [], idx = 2\<rparr>
     = Inr \<lparr>knownOptionNames = [], longOptions = [], shortOptions = Map.empty,
            topCommand = Command [] [], parsed = [], idx = 1\<rparr>
   \<and> putBack 0 \<lparr>knownOptionNames = [], longOptions = [], shortOptions = Map.empty,
                topCommand = Command [] [], parsed = [], idx = 1\<rparr>
     = Inr \<lparr>knownOptionNames = [], longOptions = [], shortOptions = Map.empty,
            topCommand = Command [] [], parsed = [], idx = 0\<rparr>
   \<and> putBack 0 \<lparr>knownOptionNames = [], longOptions = [], shortOptions = Map.empty,
                topCommand = Command [] [], parsed = [], idx = 0\<rparr>
     = Inl CursorUnderflow
   \<and> parseOptionWithPossibleParameter ''v''
        (Some \<lparr>type = TFlag, aliases = [], name = ''v''\<rparr>) [''-v'', ''-b''] 0
        \<lparr>knownOptionNames = [], longOptions = [], shortOptions = Map.empty,
         topCommand = Command [] [], parsed = [], idx = 1\<rparr>
     = Inr \<lparr>knownOptionNames = [], longOptions = [], shortOptions = Map.empty,
            topCommand = Command [] [], parsed = [FlagArg ''v'' True], idx = 1\<rparr>
   \<and> (\<exists>st'. parseStep trie_get [''-v'', ''-b'']
              \<lparr>knownOptionNames = [], longOptions = [], shortOptions = Map.empty,
               topCommand = Command [] [], parsed = [], idx = 0\<rparr> = Inr st')"
proof -
  let ?args = "[''-v'', ''-b'']"
  let ?s0 = "\<lparr>knownOptionNames = [], longOptions = [], shortOptions = Map.empty,
              topCommand = Command [] [], parsed = [], idx = 0\<rparr>"
  let ?s1 = "\<lparr>knownOptionNames = [], longOptions = [], shortOptions = Map.empty,
              topCommand = Command [] [], parsed = [], idx = 1\<rparr>"
  let ?v = "\<lparr>type = TFlag, aliases = [], name = ''v''\<rparr>"
  have h: "hasNext ?args ?s0" "0 < idx ?s1 \<and> hasNext ?args ?s1 \<and> isFlagTypeOption ?v"
    by (simp_all add: hasNext_def isFlagTypeOption_def)
  note T0 = putBack_within_step [of ?s0 ?args 0 ?v "''v''" trie_get]
  note T1 = putBack_within_step [of ?s1 ?args 0 ?v "''v''" trie_get]
  have a: "parseOptionWithPossibleParameter ''v'' (Some ?v) ?args 0 ?s1 = Inr (flag ''v'' ?s1)"
    by (rule mp [OF T1 [THEN conjunct2, THEN conjunct2, THEN conjunct2, THEN conjunct2,
            THEN conjunct1] h(2)])
  have b: "\<exists>st'. parseStep trie_get ?args ?s0 = Inr st'"
    by (rule mp [OF T0 [THEN conjunct2, THEN conjunct2, THEN conjunct2, THEN conjunct2,
            THEN conjunct2] h(1)])
  from T0 a b show ?thesis
    by (simp add: getNext_def numeral_2_eq_2 flag_def flagArg_def startsWith_def pushParsed_def)
qed

text \<open>
  C7 as stated says that a second \<^verbatim>\<open>putBack\<close> in the same iteration raises. After
  the token \<^verbatim>\<open>-a\<close> is consumed and \<^verbatim>\<open>-b\<close> is peeked, two calls of \<^verbatim>\<open>putBack\<close> both succeed
  and leave the cursor at 0.
\<close>

theorem putBack_twice_counterexample:
  "(case putBack 0
           (snd (getNext [''-a'', ''-b'']
              (snd (getNext [''-a'', ''-b'']
                 \<lparr>knownOptionNames = [], longOptions = [], shortOptions = Map.empty,
                  topCommand = Command [] [], parsed = [], idx = 0\<rparr>)))) of
      Inl e \<Rightarrow> Inl e
    | Inr st \<Rightarrow> putBack 0 st)
   = Inr \<lparr>knownOptionNames = [], longOptions = [], shortOptions = Map.empty,
          topCommand = Command [] [], parsed = [], idx = 0\<rparr>"
  by (simp add: putBack_def getNext_def)

section \<open>The names that events carry (C6)\<close>

text \<open>
  C6, as the code has it. An option token \<^verbatim>\<open>--nm\<close> or \<^verbatim>\<open>-nm\<close> (one character) without
  \<^verbatim>\<open>=\<close> emits exactly one event, and the event carries the name as it was typed: an
  option event named \<open>nm\<close>, or the flag event of \<open>nm\<close> (a leading \<^verbatim>\<open>no-\<close> removed).
  A token \<^verbatim>\<open>--nm=v\<close> emits the option event named \<open>nm\<close> with the value \<open>v\<close>. The primary
  name of the definition that \<open>nm\<close> resolves to is not used.
\<close>

theorem event_name_as_typed:
  assumes "hasNext args st"
    and "CHR ''='' \<notin> set nm"
  shows "(args ! idx st = ''--'' @ nm \<and> nm \<noteq> []
            \<or> args ! idx st = ''-'' @ nm \<and> length nm = 1 \<and> nm \<noteq> ''-''
          \<longrightarrow> (\<exists>st' e. parseStep g args st = Inr st' \<and> parsed st' = parsed st @ [e]
                 \<and> (e = flagArg nm \<or> (\<exists>v. e = OptionArg nm v))))
       \<and> (args ! idx st = ''--'' @ nm @ ''='' @ v
          \<longrightarrow> parseStep g args st
                = Inr (st\<lparr>idx := Suc (idx st), parsed := parsed st @ [OptionArg nm v]\<rparr>))"
proof (intro conjI impI)
  let ?st1 = "st\<lparr>idx := Suc (idx st)\<rparr>"
  have lt: "idx st < idx ?st1" by simp
  assume "args ! idx st = ''--'' @ nm \<and> nm \<noteq> []
            \<or> args ! idx st = ''-'' @ nm \<and> length nm = 1 \<and> nm \<noteq> ''-''"
  then show "\<exists>st' e. parseStep g args st = Inr st' \<and> parsed st' = parsed st @ [e]
                 \<and> (e = flagArg nm \<or> (\<exists>v. e = OptionArg nm v))"
  proof
    assume a: "args ! idx st = ''--'' @ nm \<and> nm \<noteq> []"
    then have "parseStep g args st =
        parseOptionWithPossibleParameter nm (g (longOptions st) nm) args (idx st) ?st1"
      using parseStep_long [OF assms(1), of nm g] assms(2) by simp
    with parseOptionWithPossibleParameter_result [OF lt, of nm "g (longOptions st) nm" args]
    show ?thesis by auto
  next
    assume a: "args ! idx st = ''-'' @ nm \<and> length nm = 1 \<and> nm \<noteq> ''-''"
    then obtain c where c: "nm = [c]" "c \<noteq> CHR ''-''" "c \<noteq> CHR ''=''"
      using assms(2) by (cases nm) auto
    have "parseStep g args st =
        parseOptionWithPossibleParameter nm (shortOptions st nm) args (idx st) ?st1"
      using parseStep_short [OF assms(1), of nm g] a c by (simp add: Let_def)
    with parseOptionWithPossibleParameter_result [OF lt, of nm "shortOptions st nm" args]
    show ?thesis by auto
  qed
next
  assume "args ! idx st = ''--'' @ nm @ ''='' @ v"
  then show "parseStep g args st
      = Inr (st\<lparr>idx := Suc (idx st), parsed := parsed st @ [OptionArg nm v]\<rparr>)"
    using parseStep_long_eq [OF assms(1) _ assms(2), of v g] by simp
qed

theorem event_name_as_typed_witness:
  "createParserContext trie_get
     (Command [(''a'', \<lparr>type = TFlag, aliases = [''opt4'']\<rparr>)] [])
   = Inr \<lparr>knownOptionNames = [''a''],
          longOptions = [(''opt4'', \<lparr>type = TFlag, aliases = [''opt4''], name = ''a''\<rparr>),
                         (''no-opt4'', \<lparr>type = TFlag, aliases = [''opt4''], name = ''a''\<rparr>)],
          shortOptions = [''a'' \<mapsto> \<lparr>type = TFlag, aliases = [''opt4''], name = ''a''\<rparr>],
          topCommand = Command [(''a'', \<lparr>type = TFlag, aliases = [''opt4'']\<rparr>)] [],
          parsed = [], idx = 0\<rparr>
   \<and> (\<exists>st' e.
        parseStep trie_get [''--opt4'', ''x'']
          \<lparr>knownOptionNames = [''a''],
           longOptions = [(''opt4'', \<lparr>type = TFlag, aliases = [''opt4''], name = ''a''\<rparr>),
                          (''no-opt4'', \<lparr>type = TFlag, aliases = [''opt4''], name = ''a''\<rparr>)],
           shortOptions = [''a'' \<mapsto> \<lparr>type = TFlag, aliases = [''opt4''], name = ''a''\<rparr>],
           topCommand = Command [(''a'', \<lparr>type = TFlag, aliases = [''opt4'']\<rparr>)] [],
           parsed = [], idx = 0\<rparr> = Inr st'
        \<and> parsed st' = [e]
        \<and> (e = flagArg ''opt4'' \<or> (\<exists>v. e = OptionArg ''opt4'' v)))
   \<and> map_sum id parsed
        (parseStep trie_get [''--opt4=x'']
          \<lparr>knownOptionNames = [''a''],
           longOptions = [(''opt4'', \<lparr>type = TFlag, aliases = [''opt4''], name = ''a''\<rparr>),
                          (''no-opt4'', \<lparr>type = TFlag, aliases = [''opt4''], name = ''a''\<rparr>)],
           shortOptions = [''a'' \<mapsto> \<lparr>type = TFlag, aliases = [''opt4''], name = ''a''\<rparr>],
           topCommand = Command [(''a'', \<lparr>type = TFlag, aliases = [''opt4'']\<rparr>)] [],
           parsed = [], idx = 0\<rparr>)
      = Inr [OptionArg ''opt4'' ''x'']"
proof -
  let ?cmd = "Command [(''a'', \<lparr>type = TFlag, aliases = [''opt4'']\<rparr>)] []"
  let ?a = "\<lparr>type = TFlag, aliases = [''opt4''], name = ''a''\<rparr>"
  let ?init = "\<lparr>knownOptionNames = [''a''],
          longOptions = [(''opt4'', ?a), (''no-opt4'', ?a)],
          shortOptions = [''a'' \<mapsto> ?a], topCommand = ?cmd, parsed = [], idx = 0\<rparr>"
  let ?args = "[''--opt4'', ''x'']"
  let ?eq = "[''--opt4=x'']"
  have b: "createParserContext trie_get ?cmd = Inr ?init"
    by (simp add: registry_defs)
  have h: "hasNext ?args ?init" "hasNext ?eq ?init" by (simp_all add: hasNext_def)
  have e: "CHR ''='' \<notin> set ''opt4''" by simp
  have t: "?args ! idx ?init = ''--'' @ ''opt4'' \<and> ''opt4'' \<noteq> []
           \<or> ?args ! idx ?init = ''-'' @ ''opt4'' \<and> length ''opt4'' = 1 \<and> ''opt4'' \<noteq> ''-''"
    by simp
  have u: "?eq ! idx ?init = ''--'' @ ''opt4'' @ ''='' @ ''x''" by simp
  note T1 = event_name_as_typed [OF h(1) e, of trie_get "''x''"]
  note T2 = event_name_as_typed [OF h(2) e, of trie_get "''x''"]
  from mp [OF T1 [THEN conjunct1] t] mp [OF T2 [THEN conjunct2] u] b show ?thesis by simp
qed

text \<open>
  C6 as stated fails on the schema of the repository's own test: the flag \<^verbatim>\<open>a\<close>
  has the alias \<^verbatim>\<open>opt4\<close>, and \<^verbatim>\<open>--opt4\<close> emits a flag event named \<^verbatim>\<open>opt4\<close>, not \<^verbatim>\<open>a\<close>.
\<close>

theorem canonical_name_counterexample:
  "parse trie_get (Command [(''a'', \<lparr>type = TFlag, aliases = [''opt4'']\<rparr>)] [])
     [''--opt4'', ''x'']
   = Some (Inr [FlagArg ''opt4'' True, PositionalArg ''x''])"
  by code_simp

section \<open>Bundled short options (C5)\<close>




section \<open>What the registry holds\<close>

lemma map_of_trie_set: "map_of (trie_set t k v) = (map_of t)(k \<mapsto> v)"
  by (simp add: trie_set_def update_conv')

lemma finds_exactD: "finds_exact g \<Longrightarrow> map_of t k = Some v \<Longrightarrow> g t k = Some v"
  by (simp add: finds_exact_def)

lemma finds_exact_trie_get: "finds_exact trie_get"
  by (simp add: finds_exact_def trie_get_def)

lemma finds_exact_map_of: "finds_exact map_of"
  by (simp add: finds_exact_def)

lemma registerAliases_keeps:
  assumes "finds_exact g"
  shows "long_has st k ty \<Longrightarrow> registerAliases g namedOpt as st = Inr st' \<Longrightarrow> long_has st' k ty"
proof (induction as arbitrary: st)
  case Nil
  then show ?case by simp
next
  case (Cons a as)
  show ?case
  proof (cases "length a = 1")
    case True
    let ?st1 = "st\<lparr>shortOptions := (shortOptions st)(a \<mapsto> namedOpt)\<rparr>"
    from Cons.prems True have r: "registerAliases g namedOpt as ?st1 = Inr st'" by simp
    have "long_has ?st1 k ty" using Cons.prems(1) by (simp add: long_has_def)
    from Cons.IH [OF this r] show ?thesis .
  next
    case False
    let ?st1 = "st\<lparr>longOptions := trie_set (longOptions st) a namedOpt\<rparr>"
    from Cons.prems(2) False have r: "registerAliases g namedOpt as ?st1 = Inr st'"
      by (simp split: option.splits if_splits)
    have "long_has ?st1 k ty"
    proof (cases "a = k")
      case True
      from Cons.prems(1) obtain opt where o: "map_of (longOptions st) k = Some opt" "type opt = ty"
        by (auto simp: long_has_def)
      from finds_exactD [OF assms o(1)] have "g (longOptions st) a = Some opt" using True by simp
      with Cons.prems(2) False o(2) have "type namedOpt = ty"
        by (simp split: if_splits)
      then show ?thesis using True by (simp add: long_has_def map_of_trie_set)
    next
      case False
      then show ?thesis using Cons.prems(1) by (simp add: long_has_def map_of_trie_set)
    qed
    from Cons.IH [OF this r] show ?thesis .
  qed
qed

lemma registerAliases_adds:
  assumes "finds_exact g"
  shows "registerAliases g namedOpt as st = Inr st' \<Longrightarrow> a \<in> set as \<Longrightarrow> length a \<noteq> 1
           \<Longrightarrow> long_has st' a (type namedOpt)"
proof (induction as arbitrary: st)
  case Nil
  then show ?case by simp
next
  case (Cons b as)
  show ?case
  proof (cases "length b = 1")
    case True
    with Cons.prems have "registerAliases g namedOpt as
        (st\<lparr>shortOptions := (shortOptions st)(b \<mapsto> namedOpt)\<rparr>) = Inr st'" "a \<in> set as"
      by auto
    with Cons.IH Cons.prems(3) show ?thesis by blast
  next
    case False
    let ?st1 = "st\<lparr>longOptions := trie_set (longOptions st) b namedOpt\<rparr>"
    from Cons.prems(1) False have r: "registerAliases g namedOpt as ?st1 = Inr st'"
      by (simp split: option.splits if_splits)
    show ?thesis
    proof (cases "a = b")
      case True
      have "long_has ?st1 a (type namedOpt)"
        using True by (simp add: long_has_def map_of_trie_set)
      from registerAliases_keeps [OF assms this r] show ?thesis .
    next
      case False
      with Cons.prems(2) have "a \<in> set as" by simp
      from Cons.IH [OF r this Cons.prems(3)] show ?thesis .
    qed
  qed
qed

lemma addKnownOptionToState_keeps:
  assumes "finds_exact g" "long_has st k ty" "addKnownOptionToState g nm opt st = Inr st'"
  shows "long_has st' k ty"
proof -
  have "long_has (st\<lparr>knownOptionNames := set_add nm (knownOptionNames st)\<rparr>) k ty"
    using assms(2) by (simp add: long_has_def)
  from registerAliases_keeps [OF assms(1) this] assms(3) show ?thesis
    by (simp add: addKnownOptionToState_def)
qed

lemma addKnownOptionToState_adds:
  assumes "finds_exact g" "addKnownOptionToState g nm opt st = Inr st'"
    "a \<in> set (expandAliases nm opt)" "length a \<noteq> 1"
  shows "long_has st' a (type opt)"
  using registerAliases_adds [OF assms(1) _ assms(3,4)] assms(2)
  by (fastforce simp: addKnownOptionToState_def)

lemma addKnownOptions_keeps:
  assumes "finds_exact g"
  shows "long_has st k ty \<Longrightarrow> addKnownOptions g opts st = Inr st' \<Longrightarrow> long_has st' k ty"
proof (induction opts arbitrary: st)
  case Nil
  then show ?case by simp
next
  case (Cons p opts)
  obtain nm opt where p: "p = (nm, opt)" by (cases p)
  from Cons.prems(2) p obtain st1 where
    s: "addKnownOptionToState g nm opt st = Inr st1" "addKnownOptions g opts st1 = Inr st'"
    by (simp split: sum.splits)
  from addKnownOptionToState_keeps [OF assms Cons.prems(1) s(1)] Cons.IH s(2)
  show ?case by blast
qed

lemma addKnownOptions_adds:
  assumes "finds_exact g"
  shows "addKnownOptions g opts st = Inr st' \<Longrightarrow> (nm, opt) \<in> set opts
           \<Longrightarrow> a \<in> set (expandAliases nm opt) \<Longrightarrow> length a \<noteq> 1
           \<Longrightarrow> long_has st' a (type opt)"
proof (induction opts arbitrary: st)
  case Nil
  then show ?case by simp
next
  case (Cons p opts)
  obtain nm1 opt1 where p: "p = (nm1, opt1)" by (cases p)
  from Cons.prems(1) p obtain st1 where
    s: "addKnownOptionToState g nm1 opt1 st = Inr st1" "addKnownOptions g opts st1 = Inr st'"
    by (simp split: sum.splits)
  show ?case
  proof (cases "(nm, opt) = p")
    case True
    with p s(1) have "addKnownOptionToState g nm opt st = Inr st1" by simp
    from addKnownOptionToState_adds [OF assms this Cons.prems(3,4)]
    have "long_has st1 a (type opt)" .
    from addKnownOptions_keeps [OF assms this s(2)] show ?thesis .
  next
    case False
    with Cons.prems(2) have "(nm, opt) \<in> set opts" by simp
    from Cons.IH [OF s(2) this Cons.prems(3,4)] show ?thesis .
  qed
qed

lemma addKnownOptions_append:
  "addKnownOptions g (xs @ ys) st =
     (case addKnownOptions g xs st of Inl e \<Rightarrow> Inl e | Inr st' \<Rightarrow> addKnownOptions g ys st')"
  by (induction xs arbitrary: st) (auto split: sum.splits)

lemma addKnownCommandToState_flat:
  "addKnownCommandToState g cmd st = addKnownOptions g (all_options cmd) st"
  and addKnownSubCommands_flat:
  "addKnownSubCommands g subs st = addKnownOptions g (all_sub_options subs) st"
proof (induction g cmd st and g subs st rule: addKnownCommandToState_addKnownSubCommands.induct)
  case (1 g opts subs st)
  then show ?case by (simp add: addKnownOptions_append split: sum.splits)
next
  case (2 g st)
  then show ?case by simp
next
  case (3 g nm sub rest st)
  then show ?case by (simp add: addKnownOptions_append split: sum.splits)
qed

lemma createParserContext_long_has:
  assumes "finds_exact g" "createParserContext g cmd = Inr st0"
    "(nm, opt) \<in> set (all_options cmd)" "a \<in> set (expandAliases nm opt)" "length a \<noteq> 1"
  shows "long_has st0 a (type opt)"
  using assms(2) addKnownOptions_adds [OF assms(1) _ assms(3,4,5)]
  by (simp add: createParserContext_def addKnownCommandToState_flat)

section \<open>Flag events\<close>

lemma flagArg_plain: "\<not> startsWith x ''no-'' \<Longrightarrow> flagArg x = FlagArg x True"
  by (simp add: flagArg_def)

lemma flagArg_negated: "flagArg (''no-'' @ x) = FlagArg x False"
  by (simp add: flagArg_def startsWith_def)

lemma flagArg_single: "flagArg [c] = FlagArg [c] True"
  by (simp add: flagArg_def startsWith_def)

lemma negatedAliases_iff:
  "(''no-'' @ a \<in> set (negatedAliases as)) = (a \<in> set as \<and> 1 < length a)"
  by (auto simp: negatedAliases_def)

lemma parseStep_known_flag:
  assumes "hasNext args st" "args ! idx st = ''--'' @ k" "k \<noteq> []" "CHR ''='' \<notin> set k"
    and "g (longOptions st) k = Some known" "isFlagTypeOption known"
  shows "parseStep g args st = Inr (st\<lparr>idx := Suc (idx st), parsed := parsed st @ [flagArg k]\<rparr>)"
  using parseStep_long [OF assms(1-4), of g] assms(5,6)
  by (simp add: parseOptionWithPossibleParameter_def hasNext_def getNext_def putBack_def
        flag_def pushParsed_def Let_def)

lemma parse_no_x_cluster:
  assumes "createParserContext g cmd = Inr st0"
  shows "parse g cmd [''-no-x'']
           = Some (Inr [FlagArg ''n'' True, FlagArg ''o'' True, FlagArg ''-'' True,
                        FlagArg ''x'' True])"
proof -
  let ?args = "[''-no-x'']"
  let ?fin = "st0\<lparr>idx := 1,
                 parsed := [FlagArg ''n'' True, FlagArg ''o'' True, FlagArg ''-'' True,
                            FlagArg ''x'' True]\<rparr>"
  from createParserContext_initial [OF assms]
  have init: "idx st0 = 0" "parsed st0 = []" by simp_all
  have h: "hasNext ?args st0" using init by (simp add: hasNext_def)
  have "parseStep g ?args st0 = Inr ?fin"
    using parseStep_short [OF h, of "''no-x''" g] init
    by (simp add: Let_def parseOptionWithPossibleParameter_def hasNext_def flag_def
          flagArg_single pushParsed_def)
  then have "parseLoop g ?args st0 = parseLoop g ?args ?fin"
    using h by (subst parseLoop.simps) simp
  also have "\<dots> = Some (Inr ?fin)"
    by (subst parseLoop.simps) (simp add: hasNext_def)
  finally show ?thesis
    using assms by (simp add: parse_def parseResults_def)
qed

section \<open>Flag negation (C4)\<close>

text \<open>
  C4, as the code has it. Take a schema whose registry builds, a flag-like option in it
  (kind flag or count), and a name or alias \<open>x\<close> of it that has more than one character,
  does not begin with \<^verbatim>\<open>no-\<close> and has no \<^verbatim>\<open>=\<close>. In every state that a parse reaches, the
  token \<^verbatim>\<open>--x\<close> emits the flag event \<open>x\<close> with value true and the token \<^verbatim>\<open>--no-x\<close> emits the
  flag event \<open>x\<close> with value false; neither consumes the token after it. No \<^verbatim>\<open>no-\<close> variant
  is made for a single-character alias, a flag event for a single-character name has
  value true, and \<^verbatim>\<open>-no-x\<close> is the cluster of the flags n, o, - and x.
\<close>

theorem flag_negation:
  assumes "finds_exact g"
    and "createParserContext g cmd = Inr st0"
    and "(nm, opt) \<in> set (all_options cmd)" and "isFlagTypeOption opt"
    and "x \<in> set (nm # aliases opt)"
    and "1 < length x" and "\<not> startsWith x ''no-''" and "CHR ''='' \<notin> set x"
    and "parseSteps g args n st0 = Some st" and "hasNext args st"
  shows "(args ! idx st = ''--'' @ x \<longrightarrow>
            parseStep g args st
              = Inr (st\<lparr>idx := Suc (idx st), parsed := parsed st @ [FlagArg x True]\<rparr>))
       \<and> (args ! idx st = ''--no-'' @ x \<longrightarrow>
            parseStep g args st
              = Inr (st\<lparr>idx := Suc (idx st), parsed := parsed st @ [FlagArg x False]\<rparr>))
       \<and> ''no-'' @ [c] \<notin> set (negatedAliases as)
       \<and> flagArg [c] = FlagArg [c] True
       \<and> parse g cmd [''-no-x'']
            = Some (Inr [FlagArg ''n'' True, FlagArg ''o'' True, FlagArg ''-'' True,
                         FlagArg ''x'' True])"
proof -
  have tabs: "longOptions st = longOptions st0"
    using parseSteps_same_tables [OF assms(9)] by (simp add: same_tables_def)
  have ex: "x \<in> set (expandAliases nm opt)" "''no-'' @ x \<in> set (expandAliases nm opt)"
    using assms(4,5,6) by (auto simp: expandAliases_def negatedAliases_def)
  have known: "\<exists>known. g (longOptions st) k = Some known \<and> isFlagTypeOption known"
    if "k \<in> set (expandAliases nm opt)" "length k \<noteq> 1" for k
  proof -
    from createParserContext_long_has [OF assms(1,2,3) that]
    obtain known where "map_of (longOptions st0) k = Some known" "type known = type opt"
      by (auto simp: long_has_def)
    with finds_exactD [OF assms(1), of "longOptions st0" k known] assms(4) tabs
    show ?thesis by (auto simp: isFlagTypeOption_def)
  qed
  have pos: "parseStep g args st
      = Inr (st\<lparr>idx := Suc (idx st), parsed := parsed st @ [FlagArg x True]\<rparr>)"
    if "args ! idx st = ''--'' @ x"
  proof -
    from known [OF ex(1)] assms(6) obtain known where
      k: "g (longOptions st) x = Some known" "isFlagTypeOption known" by auto
    have "x \<noteq> []" using assms(6) by auto
    from parseStep_known_flag [where g = g and k = x, OF assms(10) that this assms(8) k]
      flagArg_plain [OF assms(7)]
    show ?thesis by simp
  qed
  have neg: "parseStep g args st
      = Inr (st\<lparr>idx := Suc (idx st), parsed := parsed st @ [FlagArg x False]\<rparr>)"
    if "args ! idx st = ''--no-'' @ x"
  proof -
    from known [OF ex(2)] obtain known where
      k: "g (longOptions st) (''no-'' @ x) = Some known" "isFlagTypeOption known" by auto
    have t: "args ! idx st = ''--'' @ (''no-'' @ x)" using that by simp
    have "CHR ''='' \<notin> set (''no-'' @ x)" using assms(8) by simp
    from parseStep_known_flag [where g = g and k = "''no-'' @ x", OF assms(10) t _ this k]
      flagArg_negated [of x]
    show ?thesis by simp
  qed
  show ?thesis
    using pos neg negatedAliases_iff [of "[c]" as] flagArg_single [of c]
      parse_no_x_cluster [OF assms(2)]
    by simp
qed

theorem flag_negation_witness:
  "createParserContext trie_get
     (Command [(''verbose'', \<lparr>type = TFlag, aliases = [''v'']\<rparr>)] [])
   = Inr \<lparr>knownOptionNames = [''verbose''],
          longOptions =
            [(''verbose'', \<lparr>type = TFlag, aliases = [''v''], name = ''verbose''\<rparr>),
             (''no-verbose'', \<lparr>type = TFlag, aliases = [''v''], name = ''verbose''\<rparr>)],
          shortOptions = [''v'' \<mapsto> \<lparr>type = TFlag, aliases = [''v''], name = ''verbose''\<rparr>],
          topCommand = Command [(''verbose'', \<lparr>type = TFlag, aliases = [''v'']\<rparr>)] [],
          parsed = [], idx = 0\<rparr>
   \<and> map_option (map_sum id parsed)
       (Some (parseStep trie_get [''--verbose'', ''f'']
          \<lparr>knownOptionNames = [''verbose''],
           longOptions =
             [(''verbose'', \<lparr>type = TFlag, aliases = [''v''], name = ''verbose''\<rparr>),
              (''no-verbose'', \<lparr>type = TFlag, aliases = [''v''], name = ''verbose''\<rparr>)],
           shortOptions = [''v'' \<mapsto> \<lparr>type = TFlag, aliases = [''v''], name = ''verbose''\<rparr>],
           topCommand = Command [(''verbose'', \<lparr>type = TFlag, aliases = [''v'']\<rparr>)] [],
           parsed = [], idx = 0\<rparr>))
     = Some (Inr [FlagArg ''verbose'' True])
   \<and> map_option (map_sum id parsed)
       (Some (parseStep trie_get [''--no-verbose'', ''f'']
          \<lparr>knownOptionNames = [''verbose''],
           longOptions =
             [(''verbose'', \<lparr>type = TFlag, aliases = [''v''], name = ''verbose''\<rparr>),
              (''no-verbose'', \<lparr>type = TFlag, aliases = [''v''], name = ''verbose''\<rparr>)],
           shortOptions = [''v'' \<mapsto> \<lparr>type = TFlag, aliases = [''v''], name = ''verbose''\<rparr>],
           topCommand = Command [(''verbose'', \<lparr>type = TFlag, aliases = [''v'']\<rparr>)] [],
           parsed = [], idx = 0\<rparr>))
     = Some (Inr [FlagArg ''verbose'' False])"
proof -
  let ?opt = "\<lparr>type = TFlag, aliases = [''v'']\<rparr>"
  let ?cmd = "Command [(''verbose'', ?opt)] []"
  let ?v = "\<lparr>type = TFlag, aliases = [''v''], name = ''verbose''\<rparr>"
  let ?init = "\<lparr>knownOptionNames = [''verbose''],
          longOptions = [(''verbose'', ?v), (''no-verbose'', ?v)],
          shortOptions = [''v'' \<mapsto> ?v], topCommand = ?cmd, parsed = [], idx = 0\<rparr>"
  let ?pos = "[''--verbose'', ''f'']"
  let ?neg = "[''--no-verbose'', ''f'']"
  have b: "createParserContext trie_get ?cmd = Inr ?init"
    by (simp add: registry_defs)
  have m: "(''verbose'', ?opt) \<in> set (all_options ?cmd)" by simp
  have f: "isFlagTypeOption ?opt" by (simp add: isFlagTypeOption_def)
  have x: "''verbose'' \<in> set (''verbose'' # aliases ?opt)" "1 < length ''verbose''"
    "\<not> startsWith ''verbose'' ''no-''" "CHR ''='' \<notin> set ''verbose''"
    by (simp_all add: startsWith_def)
  have p: "parseSteps trie_get ?pos 0 ?init = Some ?init" "hasNext ?pos ?init"
    by (simp_all add: hasNext_def)
  have n: "parseSteps trie_get ?neg 0 ?init = Some ?init" "hasNext ?neg ?init"
    by (simp_all add: hasNext_def)
  from flag_negation [OF finds_exact_trie_get b m f x p]
    flag_negation [OF finds_exact_trie_get b m f x n] b
  show ?thesis by simp
qed

text \<open>
  C4 as stated is about every multi-character name. It fails for a flag whose own
  name begins with \<^verbatim>\<open>no-\<close>: for the flag \<^verbatim>\<open>no-color\<close> the token \<^verbatim>\<open>--no-color\<close> emits the
  flag event \<^verbatim>\<open>color\<close> with value false, not \<^verbatim>\<open>no-color\<close> with value true.
\<close>

theorem flag_negation_counterexample:
  "parse trie_get (Command [(''no-color'', \<lparr>type = TFlag, aliases = []\<rparr>)] [])
     [''--no-color'', ''x'']
   = Some (Inr [FlagArg ''color'' False, PositionalArg ''x''])"
  by code_simp

section \<open>Conflicting aliases (C3)\<close>

lemma registerAliases_error:
  "registerAliases g namedOpt as st = Inl e \<Longrightarrow> \<exists>al t1 t2. e = ConflictingOptionDefinition al t1 t2"
  by (induction as arbitrary: st) (auto split: if_splits option.splits)

lemma addKnownOptions_error:
  "addKnownOptions g opts st = Inl e \<Longrightarrow> \<exists>al t1 t2. e = ConflictingOptionDefinition al t1 t2"
proof (induction opts arbitrary: st)
  case Nil
  then show ?case by simp
next
  case (Cons p opts)
  obtain nm opt where p: "p = (nm, opt)" by (cases p)
  show ?case
  proof (cases "addKnownOptionToState g nm opt st")
    case (Inl e')
    with Cons.prems p have "e' = e" by simp
    with Inl show ?thesis
      using registerAliases_error by (auto simp: addKnownOptionToState_def)
  next
    case (Inr st1)
    with Cons.prems p have "addKnownOptions g opts st1 = Inl e" by simp
    with Cons.IH show ?thesis by blast
  qed
qed

lemma registerAliases_conflict:
  assumes "finds_exact g"
  shows "long_has st a ty \<Longrightarrow> a \<in> set as \<Longrightarrow> length a \<noteq> 1 \<Longrightarrow> type namedOpt \<noteq> ty
           \<Longrightarrow> registerAliases g namedOpt as st \<noteq> Inr st'"
proof (induction as arbitrary: st)
  case Nil
  then show ?case by simp
next
  case (Cons b as)
  show ?case
  proof
    assume ok: "registerAliases g namedOpt (b # as) st = Inr st'"
    show False
    proof (cases "length b = 1")
      case True
      let ?st1 = "st\<lparr>shortOptions := (shortOptions st)(b \<mapsto> namedOpt)\<rparr>"
      from ok True have r: "registerAliases g namedOpt as ?st1 = Inr st'" by simp
      have "long_has ?st1 a ty" using Cons.prems(1) by (simp add: long_has_def)
      moreover have "a \<in> set as" using Cons.prems(2,3) True by auto
      ultimately show False using Cons.IH Cons.prems(3,4) r by blast
    next
      case False
      let ?st1 = "st\<lparr>longOptions := trie_set (longOptions st) b namedOpt\<rparr>"
      from ok False have r: "registerAliases g namedOpt as ?st1 = Inr st'"
        by (simp split: option.splits if_splits)
      show False
      proof (cases "a = b")
        case True
        from Cons.prems(1) obtain opt where
          o: "map_of (longOptions st) a = Some opt" "type opt = ty"
          by (auto simp: long_has_def)
        from finds_exactD [OF assms o(1)] have "g (longOptions st) b = Some opt"
          using True by simp
        with ok False o(2) Cons.prems(4) show False by simp
      next
        case False
        then have "long_has ?st1 a ty"
          using Cons.prems(1) by (simp add: long_has_def map_of_trie_set)
        moreover have "a \<in> set as" using Cons.prems(2) False by simp
        ultimately show False using Cons.IH Cons.prems(3,4) r by blast
      qed
    qed
  qed
qed

lemma long_alias_conflict_detected:
  assumes "finds_exact g"
    and "all_options cmd = pre @ (n1, o1) # mid @ (n2, o2) # post"
    and "a \<in> set (expandAliases n1 o1)" and "a \<in> set (expandAliases n2 o2)"
    and "length a \<noteq> 1" and "type o1 \<noteq> type o2"
  shows "\<exists>al t1 t2. createParserContext g cmd = Inl (ConflictingOptionDefinition al t1 t2)"
proof (cases "createParserContext g cmd")
  case (Inl e)
  then show ?thesis
    using addKnownOptions_error [of g "all_options cmd" _ e]
    by (simp add: createParserContext_def addKnownCommandToState_flat)
next
  case (Inr st')
  let ?init = "\<lparr>knownOptionNames = [], longOptions = [], shortOptions = Map.empty,
                topCommand = cmd, parsed = [], idx = 0\<rparr>"
  from Inr have all: "addKnownOptions g (pre @ (n1, o1) # mid @ (n2, o2) # post) ?init = Inr st'"
    by (simp add: createParserContext_def addKnownCommandToState_flat assms(2))
  then obtain s1 where s1: "addKnownOptions g pre ?init = Inr s1"
    "addKnownOptions g ((n1, o1) # mid @ (n2, o2) # post) s1 = Inr st'"
    by (auto simp: addKnownOptions_append split: sum.splits)
  then obtain s2 where s2: "addKnownOptionToState g n1 o1 s1 = Inr s2"
    "addKnownOptions g (mid @ (n2, o2) # post) s2 = Inr st'"
    by (auto split: sum.splits)
  then obtain s3 where s3: "addKnownOptions g mid s2 = Inr s3"
    "addKnownOptions g ((n2, o2) # post) s3 = Inr st'"
    by (auto simp: addKnownOptions_append split: sum.splits)
  then obtain s4 where s4: "addKnownOptionToState g n2 o2 s3 = Inr s4"
    by (auto split: sum.splits)
  from addKnownOptionToState_adds [OF assms(1) s2(1) assms(3,5)]
  have "long_has s2 a (type o1)" .
  from addKnownOptions_keeps [OF assms(1) this s3(1)]
  have "long_has s3 a (type o1)" .
  then have "long_has (s3\<lparr>knownOptionNames := set_add n2 (knownOptionNames s3)\<rparr>) a (type o1)"
    by (simp add: long_has_def)
  from registerAliases_conflict [OF assms(1) this assms(4,5), of
      "\<lparr>type = type o2, aliases = aliases o2, name = n2\<rparr>" s4] assms(6) s4
  show ?thesis by (simp add: addKnownOptionToState_def)
qed

lemma registerAliases_registered_keeps:
  "registered st namedOpt a \<Longrightarrow> registerAliases g namedOpt as st = Inr st'
     \<Longrightarrow> registered st' namedOpt a"
proof (induction as arbitrary: st)
  case Nil
  then show ?case by simp
next
  case (Cons b as)
  show ?case
  proof (cases "length b = 1")
    case True
    let ?st1 = "st\<lparr>shortOptions := (shortOptions st)(b \<mapsto> namedOpt)\<rparr>"
    from Cons.prems(2) True have r: "registerAliases g namedOpt as ?st1 = Inr st'" by simp
    have "registered ?st1 namedOpt a" using Cons.prems(1) by (simp add: registered_def)
    from Cons.IH [OF this r] show ?thesis .
  next
    case False
    let ?st1 = "st\<lparr>longOptions := trie_set (longOptions st) b namedOpt\<rparr>"
    from Cons.prems(2) False have r: "registerAliases g namedOpt as ?st1 = Inr st'"
      by (simp split: option.splits if_splits)
    have "registered ?st1 namedOpt a"
      using Cons.prems(1) by (simp add: registered_def map_of_trie_set)
    from Cons.IH [OF this r] show ?thesis .
  qed
qed

lemma registerAliases_registered:
  "registerAliases g namedOpt as st = Inr st' \<Longrightarrow> a \<in> set as \<Longrightarrow> registered st' namedOpt a"
proof (induction as arbitrary: st)
  case Nil
  then show ?case by simp
next
  case (Cons b as)
  show ?case
  proof (cases "length b = 1")
    case True
    let ?st1 = "st\<lparr>shortOptions := (shortOptions st)(b \<mapsto> namedOpt)\<rparr>"
    from Cons.prems(1) True have r: "registerAliases g namedOpt as ?st1 = Inr st'" by simp
    show ?thesis
    proof (cases "a = b")
      case True
      have "registered ?st1 namedOpt a" using True \<open>length b = 1\<close> by (simp add: registered_def)
      from registerAliases_registered_keeps [OF this r] show ?thesis .
    next
      case False
      with Cons.prems(2) have "a \<in> set as" by simp
      from Cons.IH [OF r this] show ?thesis .
    qed
  next
    case False
    let ?st1 = "st\<lparr>longOptions := trie_set (longOptions st) b namedOpt\<rparr>"
    from Cons.prems(1) False have r: "registerAliases g namedOpt as ?st1 = Inr st'"
      by (simp split: option.splits if_splits)
    show ?thesis
    proof (cases "a = b")
      case True
      have "registered ?st1 namedOpt a"
        using True \<open>length b \<noteq> 1\<close> by (simp add: registered_def map_of_trie_set)
      from registerAliases_registered_keeps [OF this r] show ?thesis .
    next
      case False
      with Cons.prems(2) have "a \<in> set as" by simp
      from Cons.IH [OF r this] show ?thesis .
    qed
  qed
qed

lemma trie_set_same: "map_of t k = Some v \<Longrightarrow> trie_set t k v = t"
  by (simp add: trie_set_def update_triv)

lemma registerAliases_again:
  assumes "finds_exact g"
  shows "\<forall>a \<in> set as. registered st namedOpt a \<Longrightarrow> registerAliases g namedOpt as st = Inr st"
proof (induction as)
  case Nil
  then show ?case by simp
next
  case (Cons b as)
  then have b: "registered st namedOpt b" and rest: "registerAliases g namedOpt as st = Inr st"
    by simp_all
  show ?case
  proof (cases "length b = 1")
    case True
    with b have "(shortOptions st)(b \<mapsto> namedOpt) = shortOptions st"
      by (simp add: registered_def map_upd_triv)
    then show ?thesis using True rest by simp
  next
    case False
    with b have m: "map_of (longOptions st) b = Some namedOpt" by (simp add: registered_def)
    from finds_exactD [OF assms m] trie_set_same [OF m] False rest
    show ?thesis by simp
  qed
qed

lemma registerAliases_names:
  "registerAliases g namedOpt as st = Inr st' \<Longrightarrow> knownOptionNames st' = knownOptionNames st"
  by (induction as arbitrary: st) (auto split: if_splits option.splits)

lemma addKnownOptionToState_idempotent:
  assumes "finds_exact g" "addKnownOptionToState g nm opt st = Inr st'"
  shows "addKnownOptionToState g nm opt st' = Inr st'"
proof -
  let ?no = "\<lparr>type = type opt, aliases = aliases opt, name = nm\<rparr>"
  let ?st1 = "st\<lparr>knownOptionNames := set_add nm (knownOptionNames st)\<rparr>"
  from assms(2) have r: "registerAliases g ?no (expandAliases nm opt) ?st1 = Inr st'"
    by (simp add: addKnownOptionToState_def)
  from registerAliases_names [OF r] have "nm \<in> set (knownOptionNames st')"
    by (simp add: set_add_def)
  then have same: "st'\<lparr>knownOptionNames := set_add nm (knownOptionNames st')\<rparr> = st'"
    by (simp add: set_add_def)
  have "\<forall>a \<in> set (expandAliases nm opt). registered st' ?no a"
    using registerAliases_registered [OF r] by blast
  from registerAliases_again [OF assms(1) this] same show ?thesis
    by (simp add: addKnownOptionToState_def)
qed

lemma registerAliases_same_kind_succeeds:
  "(\<And>a e. a \<in> set as \<Longrightarrow> map_of (longOptions st) a = Some e \<Longrightarrow> type e = type namedOpt)
     \<Longrightarrow> \<exists>st'. registerAliases map_of namedOpt as st = Inr st'"
proof (induction as arbitrary: st)
  case Nil
  show ?case by simp
next
  case (Cons b as)
  show ?case
  proof (cases "length b = 1")
    case True
    let ?st1 = "st\<lparr>shortOptions := (shortOptions st)(b \<mapsto> namedOpt)\<rparr>"
    have "\<exists>st'. registerAliases map_of namedOpt as ?st1 = Inr st'"
    proof (rule Cons.IH)
      fix a e
      assume "a \<in> set as" "map_of (longOptions ?st1) a = Some e"
      then show "type e = type namedOpt" using Cons.prems [of a e] by simp
    qed
    with True show ?thesis by simp
  next
    case False
    let ?st1 = "st\<lparr>longOptions := trie_set (longOptions st) b namedOpt\<rparr>"
    have rest: "\<exists>st'. registerAliases map_of namedOpt as ?st1 = Inr st'"
    proof (rule Cons.IH)
      fix a e
      assume a: "a \<in> set as" and m: "map_of (longOptions ?st1) a = Some e"
      show "type e = type namedOpt"
      proof (cases "a = b")
        case True
        with m have "e = namedOpt" by (simp add: map_of_trie_set)
        then show ?thesis by simp
      next
        case False
        with m have "map_of (longOptions st) a = Some e" by (simp add: map_of_trie_set)
        with a show ?thesis using Cons.prems [of a e] by simp
      qed
    qed
    show ?thesis
    proof (cases "map_of (longOptions st) b")
      case None
      with rest False show ?thesis by simp
    next
      case (Some e)
      then have "type e = type namedOpt" using Cons.prems [of b e] by simp
      with rest False Some show ?thesis by simp
    qed
  qed
qed

text \<open>
  C3. The long-option table does what the claim says: two definitions that share an alias
  which is not a single character and differ in kind make the registry fail
  (\<open>long_alias_conflict_detected\<close>), registering a definition again changes nothing
  (\<open>addKnownOptionToState_idempotent\<close>), and an alias whose stored entries all have the
  kind of the new definition is accepted (\<open>registerAliases_same_kind_succeeds\<close>). The
  branch of the same loop for single-character aliases stores the alias without the
  check. So the flag \<^verbatim>\<open>a\<close> and the string option \<^verbatim>\<open>b\<close> with the alias \<^verbatim>\<open>a\<close> build a registry
  without an error, in which \<^verbatim>\<open>a\<close> is the string option, and \<^verbatim>\<open>-a x\<close> is parsed as an option
  with a value; the same two definitions under two-character names are rejected.
\<close>

theorem short_alias_conflict_undetected:
  "map_sum id (\<lambda>st. map_option type (shortOptions st ''a''))
     (createParserContext trie_get
        (Command [(''a'', \<lparr>type = TFlag, aliases = []\<rparr>),
                  (''b'', \<lparr>type = TString, aliases = [''a'']\<rparr>)] []))
   = Inr (Some TString)
   \<and> parse trie_get
        (Command [(''a'', \<lparr>type = TFlag, aliases = []\<rparr>),
                  (''b'', \<lparr>type = TString, aliases = [''a'']\<rparr>)] []) [''-a'', ''x'']
     = Some (Inr [OptionArg ''a'' ''x''])
   \<and> parse trie_get
        (Command [(''aa'', \<lparr>type = TFlag, aliases = []\<rparr>),
                  (''bb'', \<lparr>type = TString, aliases = [''aa'']\<rparr>)] []) [''--aa'', ''x'']
     = Some (Inl (ConflictingOptionDefinition ''aa'' TFlag TString))"
  by code_simp

section \<open>Unique prefixes of long options (C1)\<close>

lemma filter_unique_key:
  "distinct (map fst t) \<Longrightarrow> (k, v) \<in> set t \<Longrightarrow> P k
     \<Longrightarrow> (\<forall>k' \<in> fst ` set t. P k' \<longrightarrow> k' = k)
     \<Longrightarrow> filter (\<lambda>(k', v). P k') t = [(k, v)]"
proof (induction t)
  case Nil
  then show ?case by simp
next
  case (Cons p t)
  obtain k1 v1 where p: "p = (k1, v1)" by (cases p)
  have dist: "k1 \<notin> fst ` set t" "distinct (map fst t)"
    using Cons.prems(1) p by simp_all
  show ?case
  proof (cases "k1 = k")
    case True
    have "(k, v) \<notin> set t"
    proof
      assume "(k, v) \<in> set t"
      then have "fst (k, v) \<in> fst ` set t" by (rule imageI)
      with dist(1) True show False by simp
    qed
    with Cons.prems(2) p have v: "v1 = v" by simp
    have none: "\<not> P (fst q)" if "q \<in> set t" for q
    proof
      assume "P (fst q)"
      moreover have "fst q \<in> fst ` set (p # t)" using that by simp
      ultimately have "fst q = k" using Cons.prems(4) by blast
      moreover have "fst q \<in> fst ` set t" using that by (rule imageI)
      ultimately show False using dist(1) True by simp
    qed
    have "filter (\<lambda>(k', v). P k') t = []"
      unfolding filter_empty_conv using none by (auto simp: case_prod_beta)
    then show ?thesis using p True v Cons.prems(3) by simp
  next
    case False
    have "\<not> P k1"
    proof
      assume "P k1"
      moreover have "k1 \<in> fst ` set (p # t)" using p by simp
      ultimately show False using Cons.prems(4) False by blast
    qed
    moreover have "(k, v) \<in> set t" using Cons.prems(2) p False by simp
    moreover have "\<forall>k' \<in> fst ` set t. P k' \<longrightarrow> k' = k" using Cons.prems(4) by simp
    ultimately show ?thesis using Cons.IH [OF dist(2) _ Cons.prems(3)] p by simp
  qed
qed

lemma trie_get_exact: "map_of t nm = Some opt \<Longrightarrow> trie_get t nm = Some opt"
  by (simp add: trie_get_def)

lemma trie_get_unique_prefix:
  assumes "map_of t nm = None" "distinct (map fst t)" "(k, opt) \<in> set t" "startsWith k nm"
    "\<forall>k' \<in> fst ` set t. startsWith k' nm \<longrightarrow> k' = k"
  shows "trie_get t nm = Some opt"
  using filter_unique_key [OF assms(2,3), of "\<lambda>k'. startsWith k' nm"] assms(1,4,5)
  by (simp add: trie_get_def)

lemma trie_get_ambiguous:
  assumes "map_of t nm = None" "(k1, o1) \<in> set t" "(k2, o2) \<in> set t" "k1 \<noteq> k2"
    "startsWith k1 nm" "startsWith k2 nm"
  shows "trie_get t nm = None"
proof -
  let ?f = "filter (\<lambda>(k', v). startsWith k' nm) t"
  have mem: "(k1, o1) \<in> set ?f" "(k2, o2) \<in> set ?f" using assms(2,3,5,6) by simp_all
  have "?f \<noteq> [p]" for p
  proof
    assume "?f = [p]"
    with mem have "p = (k1, o1)" "p = (k2, o2)" by auto
    then have "k1 = k2" by simp
    with assms(4) show False by simp
  qed
  then have "(case ?f of [] \<Rightarrow> None | [(k', v)] \<Rightarrow> Some v | _ \<Rightarrow> None) = None"
    by (cases ?f rule: list.exhaust; cases "tl ?f") (auto split: prod.splits)
  then show ?thesis using assms(1) by (simp add: trie_get_def split: list.splits prod.splits)
qed

lemma parse_foob:
  "parse trie_get (Command [(''food'', \<lparr>type = TFlag, aliases = []\<rparr>),
                            (''foobar'', \<lparr>type = TString, aliases = []\<rparr>)] [])
     [''--foob'', v]
   = Some (Inr [OptionArg ''foob'' v])"
  by (simp add: parse_def parseResults_def registry_defs parseLoop.simps step_defs)

text \<open>
  With a \<^verbatim>\<open>get\<close> that finds exact keys only, \<^verbatim>\<open>--foob\<close> is an unknown option: the result is
  the same when the token after it does not begin with \<^verbatim>\<open>-\<close>, and differs when it does.
\<close>

lemma exact_get_differs:
  "parse map_of (Command [(''food'', \<lparr>type = TFlag, aliases = []\<rparr>),
                          (''foobar'', \<lparr>type = TString, aliases = []\<rparr>)] [])
     [''--foob'', ''trot''] = Some (Inr [OptionArg ''foob'' ''trot''])
   \<and> parse map_of (Command [(''food'', \<lparr>type = TFlag, aliases = []\<rparr>),
                          (''foobar'', \<lparr>type = TString, aliases = []\<rparr>)] [])
     [''--foob'', ''-trot'']
     = Some (Inr [FlagArg ''foob'' True, FlagArg ''t'' True, FlagArg ''r'' True,
                  FlagArg ''o'' True, FlagArg ''t'' True])"
  by code_simp

text \<open>
  C1, with \<^verbatim>\<open>StringTree.get\<close> as the spec describes it. For the schema with the flag
  \<^verbatim>\<open>food\<close> and the string option \<^verbatim>\<open>foobar\<close>, the tokens \<^verbatim>\<open>--foob\<close>, \<open>v\<close> give one option event
  that consumes \<open>v\<close>, whatever \<open>v\<close> is. In general an iteration at a long option token
  without \<^verbatim>\<open>=\<close> looks the name up in the long-option table and goes through the
  possible-parameter decision; the lookup finds an exact key, otherwise the only key that
  the name is a prefix of, and nothing when two keys begin with the name.
\<close>

theorem unique_prefix_long_option:
  "parse trie_get (Command [(''food'', \<lparr>type = TFlag, aliases = []\<rparr>),
                            (''foobar'', \<lparr>type = TString, aliases = []\<rparr>)] [])
     [''--foob'', v]
     = Some (Inr [OptionArg ''foob'' v])
   \<and> (hasNext args st \<and> args ! idx st = ''--'' @ nm \<and> nm \<noteq> [] \<and> CHR ''='' \<notin> set nm
        \<longrightarrow> parseStep trie_get args st
            = parseOptionWithPossibleParameter nm (trie_get (longOptions st) nm) args (idx st)
                (st\<lparr>idx := Suc (idx st)\<rparr>))
   \<and> (map_of t nm = Some opt \<longrightarrow> trie_get t nm = Some opt)
   \<and> (map_of t nm = None \<and> distinct (map fst t) \<and> (k, opt) \<in> set t \<and> startsWith k nm
        \<and> (\<forall>k' \<in> fst ` set t. startsWith k' nm \<longrightarrow> k' = k)
        \<longrightarrow> trie_get t nm = Some opt)
   \<and> (map_of t nm = None \<and> (k1, o1) \<in> set t \<and> (k2, o2) \<in> set t \<and> k1 \<noteq> k2
        \<and> startsWith k1 nm \<and> startsWith k2 nm
        \<longrightarrow> trie_get t nm = None)"
proof (intro conjI impI)
  show "parse trie_get (Command [(''food'', \<lparr>type = TFlag, aliases = []\<rparr>),
                            (''foobar'', \<lparr>type = TString, aliases = []\<rparr>)] [])
     [''--foob'', v] = Some (Inr [OptionArg ''foob'' v])"
    by (rule parse_foob)
next
  assume "hasNext args st \<and> args ! idx st = ''--'' @ nm \<and> nm \<noteq> [] \<and> CHR ''='' \<notin> set nm"
  then show "parseStep trie_get args st
      = parseOptionWithPossibleParameter nm (trie_get (longOptions st) nm) args (idx st)
          (st\<lparr>idx := Suc (idx st)\<rparr>)"
    by (simp add: parseStep_long)
next
  assume "map_of t nm = Some opt"
  then show "trie_get t nm = Some opt" by (rule trie_get_exact)
next
  assume a: "map_of t nm = None \<and> distinct (map fst t) \<and> (k, opt) \<in> set t \<and> startsWith k nm
        \<and> (\<forall>k' \<in> fst ` set t. startsWith k' nm \<longrightarrow> k' = k)"
  show "trie_get t nm = Some opt"
    by (rule trie_get_unique_prefix [of t nm k opt]) (use a in simp_all)
next
  assume a: "map_of t nm = None \<and> (k1, o1) \<in> set t \<and> (k2, o2) \<in> set t \<and> k1 \<noteq> k2
        \<and> startsWith k1 nm \<and> startsWith k2 nm"
  show "trie_get t nm = None"
    by (rule trie_get_ambiguous [of t nm k1 o1 k2 o2]) (use a in simp_all)
qed

theorem unique_prefix_long_option_witness:
  "parse trie_get (Command [(''food'', \<lparr>type = TFlag, aliases = []\<rparr>),
                            (''foobar'', \<lparr>type = TString, aliases = []\<rparr>)] [])
     [''--foob'', ''-trot'']
     = Some (Inr [OptionArg ''foob'' ''-trot''])
   \<and> trie_get [(''food'', \<lparr>type = TFlag, aliases = [], name = ''food''\<rparr>),
                 (''no-food'', \<lparr>type = TFlag, aliases = [], name = ''food''\<rparr>),
                 (''foobar'', \<lparr>type = TString, aliases = [], name = ''foobar''\<rparr>)] ''foob''
     = Some \<lparr>type = TString, aliases = [], name = ''foobar''\<rparr>
   \<and> trie_get [(''food'', \<lparr>type = TFlag, aliases = [], name = ''food''\<rparr>),
                 (''no-food'', \<lparr>type = TFlag, aliases = [], name = ''food''\<rparr>),
                 (''foobar'', \<lparr>type = TString, aliases = [], name = ''foobar''\<rparr>)] ''food''
     = Some \<lparr>type = TFlag, aliases = [], name = ''food''\<rparr>
   \<and> trie_get [(''food'', \<lparr>type = TFlag, aliases = [], name = ''food''\<rparr>),
                 (''no-food'', \<lparr>type = TFlag, aliases = [], name = ''food''\<rparr>),
                 (''foobar'', \<lparr>type = TString, aliases = [], name = ''foobar''\<rparr>)] ''foo''
     = None
   \<and> parseStep trie_get [''--foob'', ''-trot'']
        \<lparr>knownOptionNames = [''food'', ''foobar''],
         longOptions = [(''food'', \<lparr>type = TFlag, aliases = [], name = ''food''\<rparr>),
                        (''no-food'', \<lparr>type = TFlag, aliases = [], name = ''food''\<rparr>),
                        (''foobar'', \<lparr>type = TString, aliases = [], name = ''foobar''\<rparr>)],
         shortOptions = Map.empty,
         topCommand = Command [] [], parsed = [], idx = 0\<rparr>
     = Inr \<lparr>knownOptionNames = [''food'', ''foobar''],
         longOptions = [(''food'', \<lparr>type = TFlag, aliases = [], name = ''food''\<rparr>),
                        (''no-food'', \<lparr>type = TFlag, aliases = [], name = ''food''\<rparr>),
                        (''foobar'', \<lparr>type = TString, aliases = [], name = ''foobar''\<rparr>)],
         shortOptions = Map.empty,
         topCommand = Command [] [], parsed = [OptionArg ''foob'' ''-trot''], idx = 2\<rparr>"
proof -
  let ?food = "\<lparr>type = TFlag, aliases = [], name = ''food''\<rparr>"
  let ?foobar = "\<lparr>type = TString, aliases = [], name = ''foobar''\<rparr>"
  let ?t = "[(''food'', ?food), (''no-food'', ?food), (''foobar'', ?foobar)]"
  let ?args = "[''--foob'', ''-trot'']"
  let ?cur = "\<lparr>knownOptionNames = [''food'', ''foobar''], longOptions = ?t,
         shortOptions = Map.empty, topCommand = Command [] [], parsed = [], idx = 0\<rparr>"
  have step: "hasNext ?args ?cur \<and> ?args ! idx ?cur = ''--'' @ ''foob'' \<and> ''foob'' \<noteq> []
      \<and> CHR ''='' \<notin> set ''foob''"
    by (simp add: hasNext_def)
  have uniq: "map_of ?t ''foob'' = None \<and> distinct (map fst ?t) \<and> (''foobar'', ?foobar) \<in> set ?t
      \<and> startsWith ''foobar'' ''foob''
      \<and> (\<forall>k' \<in> fst ` set ?t. startsWith k' ''foob'' \<longrightarrow> k' = ''foobar'')"
    by (simp add: startsWith_def)
  have exact: "map_of ?t ''food'' = Some ?food" by simp
  have amb: "map_of ?t ''foo'' = None \<and> (''food'', ?food) \<in> set ?t \<and> (''foobar'', ?foobar) \<in> set ?t
      \<and> ''food'' \<noteq> ''foobar'' \<and> startsWith ''food'' ''foo'' \<and> startsWith ''foobar'' ''foo''"
    by (simp add: startsWith_def)
  note T1 = unique_prefix_long_option
    [of "''-trot''" ?args ?cur "''foob''" ?t ?foobar "''foobar''" "''food''" ?food "''foobar''" ?foobar]
  note T2 = unique_prefix_long_option
    [of "''-trot''" ?args ?cur "''food''" ?t ?food "''foobar''" "''food''" ?food "''foobar''" ?foobar]
  note T3 = unique_prefix_long_option
    [of "''-trot''" ?args ?cur "''foo''" ?t ?food "''food''" "''food''" ?food "''foobar''" ?foobar]
  have a: "trie_get ?t ''foob'' = Some ?foobar"
    by (rule mp [OF T1 [THEN conjunct2, THEN conjunct2, THEN conjunct2, THEN conjunct1] uniq])
  have b: "trie_get ?t ''food'' = Some ?food"
    by (rule mp [OF T2 [THEN conjunct2, THEN conjunct2, THEN conjunct1] exact])
  have c: "trie_get ?t ''foo'' = None"
    by (rule mp [OF T3 [THEN conjunct2, THEN conjunct2, THEN conjunct2, THEN conjunct2] amb])
  have d: "parse trie_get (Command [(''food'', \<lparr>type = TFlag, aliases = []\<rparr>),
                            (''foobar'', \<lparr>type = TString, aliases = []\<rparr>)] []) ?args
     = Some (Inr [OptionArg ''foob'' ''-trot''])"
    by (rule T1 [THEN conjunct1])
  have e: "parseStep trie_get ?args ?cur
      = parseOptionWithPossibleParameter ''foob'' (trie_get ?t ''foob'') ?args (idx ?cur)
          (?cur\<lparr>idx := Suc (idx ?cur)\<rparr>)"
    using mp [OF T1 [THEN conjunct2, THEN conjunct1] step] by simp
  have f: "parseStep trie_get ?args ?cur
      = Inr (?cur\<lparr>parsed := [OptionArg ''foob'' ''-trot''], idx := 2\<rparr>)"
    unfolding e a
    by (simp add: parseOptionWithPossibleParameter_def hasNext_def getNext_def
          isFlagTypeOption_def option_def pushParsed_def Let_def numeral_2_eq_2)
  show ?thesis using a b c d f by simp
qed

section \<open>Completion candidates (C8)\<close>

lemma consumed_names_iff:
  "None \<notin> set (map (getOption g st) [nm. OptionArg nm v \<leftarrow> evs]) \<Longrightarrow>
     (n \<in> set (map name (filter isSingularOpt
                 (map the (map (getOption g st) [nm. OptionArg nm v \<leftarrow> evs])))))
     = list_ex (consumedBy g st n) evs"
proof (induction evs)
  case Nil
  then show ?case by simp
next
  case (Cons e evs)
  then show ?case by (cases e) (auto split: option.splits)
qed

lemma getOptionsNotUsed_words:
  assumes "getOptionsNotUsed g st = Inr ws"
  shows "ws = filter (\<lambda>n. \<not> list_ex (consumedBy g st n) (parsed st)) (knownOptionNames st)"
proof -
  let ?passed = "map (getOption g st) [nm. OptionArg nm v \<leftarrow> parsed st]"
  from assms have none: "None \<notin> set ?passed"
    by (auto simp: getOptionsNotUsed_def Let_def split: if_splits)
  with assms have "ws = filter (\<lambda>optName. optName \<notin> set (map name (filter isSingularOpt
                 (map the ?passed)))) (knownOptionNames st)"
    by (auto simp: getOptionsNotUsed_def Let_def split: if_splits)
  also have "\<dots> = filter (\<lambda>n. \<not> list_ex (consumedBy g st n) (parsed st)) (knownOptionNames st)"
    using consumed_names_iff [OF none] by (intro filter_cong) simp_all
  finally show ?thesis .
qed

lemma set_add_set: "set (set_add x xs) = insert x (set xs)"
  by (auto simp: set_add_def)

lemma set_add_distinct: "distinct xs \<Longrightarrow> distinct (set_add x xs)"
  by (simp add: set_add_def)

lemma addKnownOptionToState_names:
  "addKnownOptionToState g nm opt st = Inr st' \<Longrightarrow>
     knownOptionNames st' = set_add nm (knownOptionNames st)"
  unfolding addKnownOptionToState_def
  by (drule registerAliases_names) simp

lemma addKnownOptions_names:
  "addKnownOptions g opts st = Inr st' \<Longrightarrow>
     set (knownOptionNames st') = set (knownOptionNames st) \<union> fst ` set opts
     \<and> (distinct (knownOptionNames st) \<longrightarrow> distinct (knownOptionNames st'))"
proof (induction opts arbitrary: st)
  case Nil
  then show ?case by simp
next
  case (Cons p opts)
  obtain nm opt where p: "p = (nm, opt)" by (cases p)
  from Cons.prems p obtain st1 where
    s: "addKnownOptionToState g nm opt st = Inr st1" "addKnownOptions g opts st1 = Inr st'"
    by (simp split: sum.splits)
  from addKnownOptionToState_names [OF s(1)] Cons.IH [OF s(2)] p
  show ?case by (auto simp: set_add_set set_add_distinct)
qed

lemma createParserContext_names:
  assumes "createParserContext g cmd = Inr st0"
  shows "set (knownOptionNames st0) = fst ` set (all_options cmd)"
    and "distinct (knownOptionNames st0)"
  using addKnownOptions_names [of g "all_options cmd" _ st0] assms
  by (simp_all add: createParserContext_def addKnownCommandToState_flat)

lemma parseResults_state:
  assumes "parseResults g cmd args = Some (Inr st)"
  shows "\<exists>st0. createParserContext g cmd = Inr st0 \<and> same_tables st0 st"
proof (cases "createParserContext g cmd")
  case (Inl e)
  with assms show ?thesis by (simp add: parseResults_def)
next
  case (Inr st0)
  with assms have "parseLoop g args st0 = Some (Inr st)" by (simp add: parseResults_def)
  with parseLoop_returns [of g args st0] Inr show ?thesis by auto
qed

lemma getCompletionSuggestions_raises:
  "getCompletionSuggestions g cmd args \<noteq> Some (Inr r)"
  "completionWords g cmd args = Some (Inr ws)
     \<Longrightarrow> getCompletionSuggestions g cmd args = Some (Inl ReferenceError)"
  by (simp_all add: getCompletionSuggestions_def split: option.splits sum.splits)

text \<open>
  C8, as the code has it. When \<^verbatim>\<open>getCompletionSuggestions\<close> gets as far as building its
  candidate words, the tokens after the program name were parsed to a final state, and
  the words are the declared option primary names (each once) that no parsed option event
  consumes, in the order of their registration, followed by the names of the
  sub-commands of the command at which parsing ended. Only option events consume: an
  option event consumes the primary name of the definition its name resolves to when
  that definition is single-valued. Flag events consume nothing, and neither do events
  that resolve to a plural kind.
\<close>

theorem completion_words:
  assumes "completionWords g cmd args = Some (Inr ws)"
  shows "\<exists>st. parseResults g cmd (drop 1 args) = Some (Inr st)
           \<and> ws =
               filter (\<lambda>n. \<not> list_ex (consumedBy g st n) (parsed st)) (knownOptionNames st)
               @ map fst (subCommands (topCommand st))
           \<and> set (knownOptionNames st) = fst ` set (all_options cmd)
           \<and> distinct (knownOptionNames st)"
proof -
  from assms obtain st used where
    st: "parseResults g cmd (drop 1 args) = Some (Inr st)"
    and used: "getOptionsNotUsed g st = Inr used"
    and ws: "ws = used @ map fst (subCommands (topCommand st))"
    by (auto simp: completionWords_def Let_def split: option.splits sum.splits)
  from parseResults_state [OF st] obtain st0 where
    st0: "createParserContext g cmd = Inr st0" "same_tables st0 st"
    by blast
  from createParserContext_names [OF st0(1)] st0(2)
  have names: "set (knownOptionNames st) = fst ` set (all_options cmd)"
    "distinct (knownOptionNames st)"
    by (simp_all add: same_tables_def)
  from getOptionsNotUsed_words [OF used] st ws names show ?thesis by simp
qed

theorem completion_words_witness:
  "completionWords trie_get
     (Command [(''opt1'', \<lparr>type = TFlag, aliases = []\<rparr>),
               (''foobar'', \<lparr>type = TString, aliases = []\<rparr>),
               (''many'', \<lparr>type = TStrings, aliases = []\<rparr>)]
              [(''sub'', Command [] [])])
     [''prog'', ''--foobar'', ''x'', ''--many'', ''y'', ''--opt1'']
   = Some (Inr [''opt1'', ''many'', ''sub''])
   \<and> (\<exists>st. [''opt1'', ''many'', ''sub''] =
               filter (\<lambda>n. \<not> list_ex (consumedBy trie_get st n) (parsed st)) (knownOptionNames st)
               @ map fst (subCommands (topCommand st))
            \<and> set (knownOptionNames st) = {''opt1'', ''foobar'', ''many''})"
proof -
  let ?cmd = "Command [(''opt1'', \<lparr>type = TFlag, aliases = []\<rparr>),
               (''foobar'', \<lparr>type = TString, aliases = []\<rparr>),
               (''many'', \<lparr>type = TStrings, aliases = []\<rparr>)]
              [(''sub'', Command [] [])]"
  let ?args = "[''prog'', ''--foobar'', ''x'', ''--many'', ''y'', ''--opt1'']"
  have e: "completionWords trie_get ?cmd ?args = Some (Inr [''opt1'', ''many'', ''sub''])"
    by code_simp
  from completion_words [OF e] e show ?thesis by auto
qed

text \<open>
  C8 as stated counts flag events too, and says that the words are returned. The flag
  \<^verbatim>\<open>opt1\<close> is single-valued for \<^verbatim>\<open>isSingularOpt\<close> and \<^verbatim>\<open>--opt1\<close> is parsed to a flag event, yet
  \<^verbatim>\<open>opt1\<close> is among the words that are built; and the call ends in the \<^verbatim>\<open>ReferenceError\<close>.
\<close>

theorem completion_flag_counterexample:
  "completionWords trie_get
     (Command [(''opt1'', \<lparr>type = TFlag, aliases = []\<rparr>),
               (''foobar'', \<lparr>type = TString, aliases = []\<rparr>)] [])
     [''prog'', ''--opt1'']
   = Some (Inr [''opt1'', ''foobar''])
   \<and> parse trie_get
     (Command [(''opt1'', \<lparr>type = TFlag, aliases = []\<rparr>),
               (''foobar'', \<lparr>type = TString, aliases = []\<rparr>)] [])
     [''--opt1'']
   = Some (Inr [FlagArg ''opt1'' True])
   \<and> isSingularOpt \<lparr>type = TFlag, aliases = []\<rparr>
   \<and> getCompletionSuggestions trie_get
     (Command [(''opt1'', \<lparr>type = TFlag, aliases = []\<rparr>),
               (''foobar'', \<lparr>type = TString, aliases = []\<rparr>)] [])
     [''prog'', ''--opt1'']
   = Some (Inl ReferenceError)"
  by code_simp

end
